theory Spec2Isabelle
  imports
    Complex_Main
    "HOL-Library.Char_ord"
    "HOL-Library.List_Lexorder"
    "HOL-Library.Log_Nat"
    "HOL-Library.Product_Lexorder"
begin

section \<open>Text helpers\<close>

text \<open>
  Python strings are modelled as \<^typ>\<open>string\<close>; a character is its code point below 256.
  \<open>str.lower\<close> and SQLite's \<open>LOWER\<close> agree on the letters \<open>A\<close> to \<open>Z\<close>, which is all that
  the status vocabulary of this program contains.
\<close>

definition lower_char :: "char \<Rightarrow> char" where
  "lower_char c =
     (if CHR ''A'' \<le> c \<and> c \<le> CHR ''Z'' then char_of (of_char c + (32::nat)) else c)"

definition lower :: "string \<Rightarrow> string" where
  "lower s = map lower_char s"

definition startswith :: "string \<Rightarrow> string \<Rightarrow> bool" where
  "startswith s p = (take (length p) s = p)"

definition isspace :: "char \<Rightarrow> bool" where
  "isspace c = (of_char c \<in> {9, 10, 11, 12, 13, 28, 29, 30, 31, 32, 133, 160 :: nat})"

definition strip :: "string \<Rightarrow> string" where
  "strip s = rev (dropWhile isspace (rev (dropWhile isspace s)))"

section \<open>Data model\<close>

text \<open>
  One row of \<open>service_calls\<close> (\<open>CallRecord\<close> in \<open>api/routes/calls.py\<close>). The columns that
  the KPI and filter layer reads have a field each. Absent (\<open>NULL\<close>, \<open>NaN\<close>, \<open>NaT\<close>) is
  \<open>None\<close>. The two timestamps are in the form \<open>_postprocess_dataframe\<close> leaves them: a
  \<open>datetime64[ns]\<close>, that is an integer count of nanoseconds.

  The remaining columns of the row (\<open>address\<close>, \<open>zone\<close>, \<open>priority\<close>, \<open>ticket_no\<close>, the
  coordinates and so on) are in \<open>other_columns\<close>, by label. Nothing here computes with them;
  they are only read as text, so each cell is held as \<open>astype(str)\<close> renders it, and a label
  with no entry is absent in this row. The same holds for the text \<open>astype(str)\<close> gives
  \<open>call_id\<close> and the two timestamps.
\<close>

record CallRecord =
  call_id :: int
  customer_name :: "string option"
  state :: "string option"
  model :: "string option"
  visited_engineer_name :: "string option"
  call_entry_datetime :: "int option"
  call_solved_datetime :: "int option"
  customer_complaint :: "string option"
  call_type :: "string option"
  nature_of_complaint :: "string option"
  call_status :: "string option"
  status :: "string option"
  forward_employee_name :: "string option"
  instrument_status :: "string option"
  other_columns :: "(string \<times> string) list"

text \<open>
  A \<open>pandas.DataFrame\<close>: the column labels it carries and its rows. A column whose label
  is not in \<open>columns\<close> is not in the frame, whatever the rows hold there.
\<close>

record DataFrame =
  columns :: "string list"
  rows :: "CallRecord list"

definition in_df :: "string \<Rightarrow> DataFrame \<Rightarrow> bool" where
  "in_df column df = (column \<in> set (columns df))"

text \<open>
  The cell of a column as text, by label: the field of a text column, and the entry of
  \<open>other_columns\<close> for any other label.
\<close>

definition text_column :: "string \<Rightarrow> CallRecord \<Rightarrow> string option" where
  "text_column column r =
     (if column = ''customer_name'' then customer_name r
      else if column = ''state'' then state r
      else if column = ''model'' then model r
      else if column = ''visited_engineer_name'' then visited_engineer_name r
      else if column = ''customer_complaint'' then customer_complaint r
      else if column = ''call_type'' then call_type r
      else if column = ''nature_of_complaint'' then nature_of_complaint r
      else if column = ''call_status'' then call_status r
      else if column = ''status'' then status r
      else if column = ''forward_employee_name'' then forward_employee_name r
      else if column = ''instrument_status'' then instrument_status r
      else map_of (other_columns r) column)"

datatype error = ValueError string | KeyError string

section \<open>Distributions (\<open>prepare_distribution\<close>)\<close>

text \<open>\<open>Series.dropna\<close> on a column of optional values.\<close>

definition dropna :: "'a option list \<Rightarrow> 'a list" where
  "dropna xs = map the (filter (\<lambda>v. v \<noteq> None) xs)"

text \<open>
  \<open>Series.value_counts\<close>: the hash table of pandas counts each value (\<open>value_count\<close>, one
  entry for each value), and the result is then sorted by count with
  \<open>sort_values(ascending=False)\<close>. The source names no sort kind, and the order in which the
  default sort of the library leaves equal counts is not fixed by this program: that sort
  is the parameter \<open>sort_values\<close> of the model.
\<close>

type_synonym counts = "(string \<times> nat) list"

fun bump :: "string \<Rightarrow> (string \<times> nat) list \<Rightarrow> (string \<times> nat) list" where
  "bump v [] = [(v, 1)]"
| "bump v ((k, c) # kcs) = (if k = v then (k, Suc c) # kcs else (k, c) # bump v kcs)"

definition value_count :: "string list \<Rightarrow> (string \<times> nat) list" where
  "value_count xs = foldl (\<lambda>acc v. bump v acc) [] xs"

definition value_counts :: "(counts \<Rightarrow> counts) \<Rightarrow> string list \<Rightarrow> counts" where
  "value_counts sort_values xs = sort_values (value_count xs)"

text \<open>\<open>DataFrame.head(n)\<close>: the first \<open>n\<close> rows, or all but the last \<open>-n\<close> for a negative \<open>n\<close>.\<close>

definition head :: "int \<Rightarrow> 'a list \<Rightarrow> 'a list" where
  "head n xs = (if 0 \<le> n then take (nat n) xs else take (length xs - nat (- n)) xs)"

definition prepare_distribution ::
  "(counts \<Rightarrow> counts) \<Rightarrow> DataFrame \<Rightarrow> string \<Rightarrow> int option \<Rightarrow> counts" where
  "prepare_distribution sort_values df column limit =
     (if \<not> in_df column df then []
      else
        let series = map strip (dropna (map (text_column column) (rows df)));
            series = filter (\<lambda>v. v \<noteq> '''') series;
            data = value_counts sort_values series
        in (case limit of
              None \<Rightarrow> data
            | Some n \<Rightarrow> if n \<noteq> 0 then head n data else data))"

section \<open>KPIs of the dashboard (\<open>compute_kpis\<close>)\<close>

text \<open>
  A Python \<open>float\<close> is a binary double, and a double is a rational number: the model
  holds it as that number. \<open>to_double x\<close> is the double nearest to the rational \<open>x\<close>, a tie
  going to the even significand of 53 bits (the rounding of every IEEE 754 operation;
  overflow and subnormal numbers are out of the range of the values computed here).
  \<open>log2_floor x\<close> is the exponent of a positive \<open>x\<close>.
\<close>

definition round_half_even :: "rat \<Rightarrow> int" where
  "round_half_even x =
     (let f = \<lfloor>x\<rfloor>; d = x - of_int f
      in if d < 1 / 2 then f else if 1 / 2 < d then f + 1 else if even f then f else f + 1)"

definition pow2 :: "int \<Rightarrow> rat" where
  "pow2 e = (if 0 \<le> e then 2 ^ nat e else 1 / 2 ^ nat (- e))"

definition log2_floor :: "rat \<Rightarrow> int" where
  "log2_floor x =
     (let d = bitlen (fst (quotient_of x)) - bitlen (snd (quotient_of x))
      in if pow2 d \<le> x then d else d - 1)"

definition to_double :: "rat \<Rightarrow> rat" where
  "to_double x =
     (if x = 0 then 0
      else let ulp = pow2 (log2_floor \<bar>x\<bar> - 52)
           in of_int (round_half_even (x / ulp)) * ulp)"

text \<open>
  Python's \<open>round(x, ndigits)\<close> of a float: the exact value of \<open>x\<close> is rounded to \<open>ndigits\<close>
  decimals, a tie going to the even digit, and the result is the double nearest to that
  decimal number.
\<close>

definition py_round :: "rat \<Rightarrow> nat \<Rightarrow> rat" where
  "py_round x ndigits = to_double (of_int (round_half_even (x * 10 ^ ndigits)) / 10 ^ ndigits)"

text \<open>
  \<open>days\<close> is \<open>total_seconds().div(86400)\<close> of a nanosecond difference, as the exact
  quotient: it is only compared with the bounds of 2 and 30 days, and on a whole number
  of nanoseconds the comparison of the doubles gives what the exact comparison gives.
\<close>

definition days :: "int \<Rightarrow> rat" where
  "days ns = of_int ns / 10 ^ 9 / 86400"

text \<open>\<open>Series.fillna("")\<close> on one cell; \<open>df.get(column, default_series)\<close> on the frame.\<close>

definition fillna :: "string option \<Rightarrow> string" where
  "fillna v = (case v of None \<Rightarrow> [] | Some s \<Rightarrow> s)"

definition df_get :: "DataFrame \<Rightarrow> string \<Rightarrow> string option list" where
  "df_get df column =
     (if in_df column df then map (text_column column) (rows df)
      else replicate (length (rows df)) None)"

definition status_matches :: "DataFrame \<Rightarrow> string list \<Rightarrow> bool list" where
  "status_matches df targets =
     (let targets_lower = map lower targets;
          status_series = df_get df ''status'';
          call_status_series = df_get df ''call_status'';
          status_match = map (\<lambda>v. lower (fillna v) \<in> set targets_lower) status_series;
          call_status_match =
            map (\<lambda>v. list_ex (\<lambda>target. startswith (lower (fillna v)) target) targets_lower)
              call_status_series
      in map2 (\<or>) status_match call_status_match)"

text \<open>\<open>int(mask.sum())\<close>: the number of \<open>True\<close> entries of a boolean series.\<close>

definition mask_sum :: "bool list \<Rightarrow> nat" where
  "mask_sum bs = length (filter (\<lambda>b. b) bs)"

definition resolution_days :: "DataFrame \<Rightarrow> rat list" where
  "resolution_days df =
     (if \<not> in_df ''call_entry_datetime'' df \<or> \<not> in_df ''call_solved_datetime'' df then []
      else
        let resolved =
              filter (\<lambda>r. call_entry_datetime r \<noteq> None \<and> call_solved_datetime r \<noteq> None)
                (rows df)
        in if resolved = [] then []
           else map (\<lambda>r. days (the (call_solved_datetime r) - the (call_entry_datetime r)))
                  resolved)"

text \<open>
  \<open>_repeated_issue_count\<close>. \<open>dropna(subset=...)\<close> raises \<open>KeyError\<close> on a label that is
  not in the frame. \<open>sort_values\<close> on several columns is a stable lexicographic sort;
  \<open>groupby(...).diff()\<close> gives each row the difference to the previous row of its own
  group, and \<open>NaT\<close> to the first row of a group.
\<close>

definition sort_cols :: "CallRecord \<Rightarrow> string \<times> string \<times> int" where
  "sort_cols r =
     (the (customer_name r), the (customer_complaint r), the (call_entry_datetime r))"

definition group_cols :: "CallRecord \<Rightarrow> string \<times> string" where
  "group_cols r = (the (customer_name r), the (customer_complaint r))"

fun group_diff :: "(string \<times> string \<rightharpoonup> int) \<Rightarrow> CallRecord list \<Rightarrow> int option list" where
  "group_diff prev [] = []"
| "group_diff prev (r # rs) =
     (case prev (group_cols r) of
        None \<Rightarrow> None
      | Some p \<Rightarrow> Some (the (call_entry_datetime r) - p))
     # group_diff (prev(group_cols r \<mapsto> the (call_entry_datetime r))) rs"

definition repeated_issue_count :: "DataFrame \<Rightarrow> error + nat" where
  "repeated_issue_count df =
     (if \<not> in_df ''customer_name'' df then Inl (KeyError ''customer_name'')
      else if \<not> in_df ''customer_complaint'' df then Inl (KeyError ''customer_complaint'')
      else if \<not> in_df ''call_entry_datetime'' df then Inl (KeyError ''call_entry_datetime'')
      else
        let subset =
              filter (\<lambda>r. customer_name r \<noteq> None \<and> customer_complaint r \<noteq> None
                          \<and> call_entry_datetime r \<noteq> None) (rows df)
        in if subset = [] then Inr 0
           else
             let sorted_subset = sort_key sort_cols subset;
                 diff_days = map (map_option days) (group_diff Map.empty sorted_subset);
                 flags = map (\<lambda>d. case d of None \<Rightarrow> False | Some x \<Rightarrow> x \<le> 30) diff_days
             in Inr (mask_sum flags))"

text \<open>
  \<open>compute_kpis\<close>. \<open>Series.mean\<close> is a function of pandas: the order in which it adds the
  doubles of the series is not fixed by this program, so the model takes it as the
  parameter \<open>series_mean\<close>, from the samples to the double that pandas returns.
  \<open>len(sla_hits) / len(resolution_days) * 100.0\<close> is one division and one multiplication of
  doubles.
\<close>

record KPIs =
  total_calls :: nat
  closed_calls :: nat
  pending_calls :: nat
  avg_resolution_days :: rat
  sla_compliance :: rat
  repeated_issues :: nat

definition compute_kpis :: "(rat list \<Rightarrow> rat) \<Rightarrow> DataFrame \<Rightarrow> error + KPIs" where
  "compute_kpis series_mean df =
     (let total = length (rows df)
      in if total = 0 then
           Inr \<lparr>total_calls = 0, closed_calls = 0, pending_calls = 0,
                avg_resolution_days = 0, sla_compliance = 0, repeated_issues = 0\<rparr>
         else
           let closed_mask =
                 status_matches df [''solved'', ''closed'', ''completed'', ''resolved''];
               closed = mask_sum closed_mask;
               pending_mask =
                 status_matches df
                   [''pending'', ''processing'', ''unsolved'', ''open'', ''in progress''];
               pending = mask_sum pending_mask;
               resolution = resolution_days df;
               avg_resolution =
                 (if resolution \<noteq> [] then py_round (series_mean resolution) 2 else 0);
               sla_hits = filter (\<lambda>d. d \<le> 2) resolution;
               sla =
                 (if length resolution \<noteq> 0
                  then py_round
                         (to_double
                            (to_double (of_nat (length sla_hits) / of_nat (length resolution))
                             * 100)) 1
                  else 0)
           in case repeated_issue_count df of
                Inl e \<Rightarrow> Inl e
              | Inr repeated \<Rightarrow>
                  Inr \<lparr>total_calls = total, closed_calls = closed, pending_calls = pending,
                       avg_resolution_days = avg_resolution, sla_compliance = sla,
                       repeated_issues = repeated\<rparr>)"

section \<open>KPIs of the API (\<open>get_stats\<close>)\<close>

text \<open>
  \<open>get_stats\<close> computes its totals in one SQL statement over the table. The table is the
  list of its rows; each aggregate is written as SQLite evaluates it: \<open>SUM\<close> and \<open>AVG\<close>
  are \<open>NULL\<close> over no rows, \<open>AVG\<close> skips \<open>NULL\<close> operands, \<open>LIKE\<close> with a trailing \<open>%\<close> is
  a prefix test. The three distributions of the response come from
  \<open>_build_distribution\<close> and are not part of this record.

  The operand of \<open>AVG\<close> is \<open>(julianday(call_solved_datetime) - julianday(call_entry_datetime))
  * 24.0\<close>, which is \<open>NULL\<close> on a row where either timestamp is. The doubles that \<open>julianday\<close>
  and \<open>AVG\<close> compute are SQLite's: the model takes them as the parameter \<open>avg_hours\<close>, from
  the rows whose operand is not \<open>NULL\<close> to the double that \<open>AVG\<close> returns over them.
\<close>

definition sql_sum :: "nat list \<Rightarrow> nat option" where
  "sql_sum xs = (if xs = [] then None else Some (sum_list xs))"

definition avg_operand_rows :: "CallRecord list \<Rightarrow> CallRecord list" where
  "avg_operand_rows db =
     filter (\<lambda>r. call_solved_datetime r \<noteq> None \<and> call_entry_datetime r \<noteq> None) db"

definition sql_avg :: "(CallRecord list \<Rightarrow> rat) \<Rightarrow> CallRecord list \<Rightarrow> rat option" where
  "sql_avg avg_hours db =
     (let operands = avg_operand_rows db
      in if operands = [] then None else Some (avg_hours operands))"

definition or_zero :: "nat option \<Rightarrow> nat" where
  "or_zero v = (case v of None \<Rightarrow> 0 | Some n \<Rightarrow> n)"

record KPIStats =
  total_calls :: nat
  closed_calls :: nat
  pending_calls :: nat
  average_resolution_hours :: "rat option"

definition get_stats :: "(CallRecord list \<Rightarrow> rat) \<Rightarrow> CallRecord list \<Rightarrow> KPIStats" where
  "get_stats avg_hours db =
     (let count_all = length db;
          sum_closed =
            sql_sum (map (\<lambda>r.
              if lower (fillna (status r)) \<in> set [''solved'', ''closed'', ''completed'', ''resolved'']
                 \<or> startswith (lower (fillna (call_status r))) ''solved''
              then 1 else 0) db);
          sum_pending =
            sql_sum (map (\<lambda>r.
              if lower (fillna (status r))
                   \<in> set [''pending'', ''processing'', ''unsolved'', ''open'', ''in progress'']
              then 1 else 0) db);
          avg_resolution = sql_avg avg_hours db
      in \<lparr>KPIStats.total_calls = count_all,
          closed_calls = or_zero sum_closed,
          pending_calls = or_zero sum_pending,
          average_resolution_hours = map_option (\<lambda>a. py_round a 2) avg_resolution\<rparr>)"

section \<open>Filter queries\<close>

text \<open>
  The filter dictionary. A date bound is absent, a string or a \<open>date\<close>; a criterion is
  absent, a single value, or a \<open>list\<close>/\<open>tuple\<close>/\<open>set\<close> of values, each a string or \<open>None\<close>.
  \<open>filters.get(key)\<close> is \<open>None\<close> for a key that is missing and for one that maps to \<open>None\<close>.
\<close>

datatype date = Date nat nat nat

datatype date_bound = BoundStr string | BoundDate date

datatype criterion = Single string | Many "string option list"

record Filters =
  start_date :: "date_bound option"
  end_date :: "date_bound option"
  criteria :: "string \<rightharpoonup> criterion"

text \<open>A bound parameter of the statement.\<close>

datatype param = PStr string | PDate date | PInt int | PList "string option list"

text \<open>\<open>date.isoformat()\<close>, which is also \<open>str\<close> of a date: \<open>YYYY-MM-DD\<close>.\<close>

definition digit :: "nat \<Rightarrow> char" where
  "digit n = char_of (48 + n mod 10)"

fun isoformat :: "date \<Rightarrow> string" where
  "isoformat (Date y m d) =
     [digit (y div 1000), digit (y div 100), digit (y div 10), digit y] @ ''-''
     @ [digit (m div 10), digit m] @ ''-'' @ [digit (d div 10), digit d]"

fun py_str :: "date_bound \<Rightarrow> string" where
  "py_str (BoundStr s) = s"
| "py_str (BoundDate d) = isoformat d"

text \<open>Python's truth value of a bound and of a criterion.\<close>

fun bound_truthy :: "date_bound option \<Rightarrow> bool" where
  "bound_truthy None = False"
| "bound_truthy (Some (BoundStr s)) = (s \<noteq> [])"
| "bound_truthy (Some (BoundDate d)) = True"

fun truthy :: "criterion \<Rightarrow> bool" where
  "truthy (Single s) = (s \<noteq> [])"
| "truthy (Many vs) = (vs \<noteq> [])"

text \<open>
  A condition of the \<open>WHERE\<close> clause. The source appends the text of each condition to
  \<open>conditions\<close>; the model appends the condition and \<open>render\<close> gives that text, so that the
  statement text is the one of the source and the condition can also be evaluated on a row.
\<close>

datatype cond = Eq string | In string nat | DateGe | DateLe

fun join :: "string \<Rightarrow> string list \<Rightarrow> string" where
  "join sep [] = []"
| "join sep [x] = x"
| "join sep (x # y # ys) = x @ sep @ join sep (y # ys)"

fun render :: "cond \<Rightarrow> string" where
  "render (Eq column) = column @ '' = ?''"
| "render (In column n) = column @ '' IN ('' @ join '', '' (replicate n ''?'') @ '')''"
| "render DateGe = ''date(call_entry_datetime) >= ?''"
| "render DateLe = ''date(call_entry_datetime) <= ?''"

text \<open>
  The statement template, an f-string over five lines that is stripped at both ends.
\<close>

definition indent :: string where
  "indent = CHR 0x0A # replicate 8 (CHR '' '')"

definition statement_text :: "string \<Rightarrow> string \<Rightarrow> string" where
  "statement_text where_clause limit_clause =
     strip (indent @ ''SELECT *'' @ indent @ ''FROM service_calls'' @ indent @ where_clause
            @ indent @ ''ORDER BY call_entry_datetime DESC'' @ indent @ limit_clause
            @ CHR 0x0A # replicate 4 (CHR '' ''))"

text \<open>
  The statement: \<open>sql\<close> and \<open>params\<close> as in \<open>QueryResult\<close>, and the conditions that the
  \<open>WHERE\<close> clause of \<open>sql\<close> renders.
\<close>

record QueryResult =
  conditions :: "cond list"
  sql :: string
  params :: "param list"

subsection \<open>\<open>fetch_filtered_calls\<close> (\<open>utils/query_tools.py\<close>)\<close>

definition FILTER_COLUMN_MAP :: "(string \<times> string) list" where
  "FILTER_COLUMN_MAP =
     [(''state'', ''state''),
      (''model'', ''model''),
      (''assigned_to'', ''forward_employee_name''),
      (''engineer'', ''visited_engineer_name''),
      (''issue_category'', ''nature_of_complaint''),
      (''instrument_status'', ''instrument_status''),
      (''status'', ''status'')]"

fun append_condition ::
  "string \<Rightarrow> criterion \<Rightarrow> cond list \<times> param list \<Rightarrow> cond list \<times> param list" where
  "append_condition column (Many vs) (cs, ps) =
     (let values = filter (\<lambda>v. v \<noteq> None \<and> v \<noteq> Some []) vs
      in if values = [] then (cs, ps)
         else (cs @ [In column (length values)], ps @ map (\<lambda>v. PStr (the v)) values))"
| "append_condition column (Single v) (cs, ps) = (cs @ [Eq column], ps @ [PStr v])"

text \<open>The loop over \<open>FILTER_COLUMN_MAP.items()\<close>, in the order of the dictionary.\<close>

fun append_criteria ::
  "(string \<times> string) list \<Rightarrow> (string \<rightharpoonup> criterion) \<Rightarrow> cond list \<times> param list
     \<Rightarrow> cond list \<times> param list" where
  "append_criteria [] get acc = acc"
| "append_criteria ((key, column) # rest) get acc =
     (case get key of
        None \<Rightarrow> append_criteria rest get acc
      | Some v \<Rightarrow>
          if \<not> truthy v then append_criteria rest get acc
          else append_criteria rest get (append_condition column v acc))"

text \<open>
  \<open>fetch_filtered_calls\<close> up to the statement it hands to the store: its conditions, its
  text and its parameters, or the \<open>ValueError\<close> it raises.
\<close>

definition fetch_filtered_calls_query :: "Filters \<Rightarrow> int option \<Rightarrow> error + QueryResult" where
  "fetch_filtered_calls_query filters limit =
     (let acc = ([], []);
          acc = (if bound_truthy (start_date filters)
                 then (fst acc @ [DateGe], snd acc @ [PStr (py_str (the (start_date filters)))])
                 else acc);
          acc = (if bound_truthy (end_date filters)
                 then (fst acc @ [DateLe], snd acc @ [PStr (py_str (the (end_date filters)))])
                 else acc);
          acc = append_criteria FILTER_COLUMN_MAP (criteria filters) acc;
          where_clause =
            (if fst acc \<noteq> [] then ''WHERE '' @ join '' AND '' (map render (fst acc)) else [])
      in case limit of
           None \<Rightarrow>
             Inr \<lparr>conditions = fst acc, sql = statement_text where_clause [], params = snd acc\<rparr>
         | Some n \<Rightarrow>
             if n \<le> 0 then Inl (ValueError ''limit must be positive'')
             else Inr \<lparr>conditions = fst acc, sql = statement_text where_clause '' LIMIT ?'',
                       params = snd acc @ [PInt n]\<rparr>)"

subsection \<open>\<open>build_service_calls_query\<close> (\<open>utils/query_builder.py\<close>)\<close>

definition BUILDER_COLUMN_MAP :: "(string \<times> string) list" where
  "BUILDER_COLUMN_MAP =
     [(''state'', ''state''),
      (''model'', ''model''),
      (''engineer'', ''visited_engineer_name''),
      (''status'', ''status''),
      (''instrument_status'', ''instrument_status'')]"

fun criterion_param :: "criterion \<Rightarrow> param" where
  "criterion_param (Single v) = PStr v"
| "criterion_param (Many vs) = PList vs"

fun equality_criteria ::
  "(string \<times> string) list \<Rightarrow> (string \<rightharpoonup> criterion) \<Rightarrow> cond list \<times> param list
     \<Rightarrow> cond list \<times> param list" where
  "equality_criteria [] get acc = acc"
| "equality_criteria ((key, column) # rest) get acc =
     (case get key of
        None \<Rightarrow> equality_criteria rest get acc
      | Some v \<Rightarrow> equality_criteria rest get (fst acc @ [Eq column], snd acc @ [criterion_param v]))"

definition build_service_calls_query :: "Filters \<Rightarrow> int option \<Rightarrow> error + QueryResult" where
  "build_service_calls_query filters limit =
     (let acc = equality_criteria BUILDER_COLUMN_MAP (criteria filters) ([], []);
          acc = (if bound_truthy (start_date filters)
                 then (fst acc @ [DateGe], snd acc @ [PStr (py_str (the (start_date filters)))])
                 else acc);
          acc = (if bound_truthy (end_date filters)
                 then (fst acc @ [DateLe], snd acc @ [PStr (py_str (the (end_date filters)))])
                 else acc);
          where_clause =
            (if fst acc \<noteq> [] then '' WHERE '' @ join '' AND '' (map render (fst acc)) else [])
      in case limit of
           None \<Rightarrow>
             Inr \<lparr>conditions = fst acc, sql = statement_text where_clause [], params = snd acc\<rparr>
         | Some n \<Rightarrow>
             if n \<le> 0 then Inl (ValueError ''limit must be positive'')
             else Inr \<lparr>conditions = fst acc, sql = statement_text where_clause '' LIMIT ?'',
                       params = snd acc @ [PInt n]\<rparr>)"

subsection \<open>What a statement selects\<close>

text \<open>
  The rows a \<open>WHERE\<close> clause keeps, as SQLite evaluates it: the conditions are joined by
  \<open>AND\<close> and take their parameters from the list in order; a comparison with \<open>NULL\<close> is
  not true. \<open>date(call_entry_datetime)\<close>, a function of the store, is the parameter
  \<open>entry_date\<close>. The clauses \<open>ORDER BY\<close> and \<open>LIMIT\<close> are not evaluated here.
\<close>

fun param_text :: "param \<Rightarrow> string option" where
  "param_text (PStr s) = Some s"
| "param_text (PDate d) = Some (isoformat d)"
| "param_text (PInt n) = None"
| "param_text (PList vs) = None"

definition sql_eq :: "string option \<Rightarrow> param \<Rightarrow> bool" where
  "sql_eq v p = (v \<noteq> None \<and> v = param_text p)"

definition sql_in :: "string option \<Rightarrow> param list \<Rightarrow> bool" where
  "sql_in v ps = list_ex (sql_eq v) ps"

definition sql_ge :: "string option \<Rightarrow> param \<Rightarrow> bool" where
  "sql_ge v p = (case (v, param_text p) of (Some a, Some b) \<Rightarrow> b \<le> a | _ \<Rightarrow> False)"

definition sql_le :: "string option \<Rightarrow> param \<Rightarrow> bool" where
  "sql_le v p = (case (v, param_text p) of (Some a, Some b) \<Rightarrow> a \<le> b | _ \<Rightarrow> False)"

fun where_holds ::
  "(CallRecord \<Rightarrow> string option) \<Rightarrow> cond list \<Rightarrow> param list \<Rightarrow> CallRecord \<Rightarrow> bool" where
  "where_holds entry_date [] ps r = True"
| "where_holds entry_date (Eq column # cs) ps r =
     (sql_in (text_column column r) (take 1 ps) \<and> where_holds entry_date cs (drop 1 ps) r)"
| "where_holds entry_date (In column n # cs) ps r =
     (sql_in (text_column column r) (take n ps) \<and> where_holds entry_date cs (drop n ps) r)"
| "where_holds entry_date (DateGe # cs) ps r =
     (list_ex (sql_ge (entry_date r)) (take 1 ps) \<and> where_holds entry_date cs (drop 1 ps) r)"
| "where_holds entry_date (DateLe # cs) ps r =
     (list_ex (sql_le (entry_date r)) (take 1 ps) \<and> where_holds entry_date cs (drop 1 ps) r)"

section \<open>The KPI rules in the words of the specification\<close>

text \<open>
  The status vocabulary, and the two classification rules for a closed call: the one the
  specification states, and the one \<open>_status_matches\<close> applies on the dashboard, where the
  prefix test on \<open>call_status\<close> runs over every target word.
\<close>

definition closed_statuses :: "string list" where
  "closed_statuses = [''solved'', ''closed'', ''completed'', ''resolved'']"

definition pending_statuses :: "string list" where
  "pending_statuses = [''pending'', ''processing'', ''unsolved'', ''open'', ''in progress'']"

definition status_is_one_of :: "string list \<Rightarrow> CallRecord \<Rightarrow> bool" where
  "status_is_one_of ws r = (case status r of None \<Rightarrow> False | Some s \<Rightarrow> lower s \<in> set ws)"

definition call_status_starts_with :: "string \<Rightarrow> CallRecord \<Rightarrow> bool" where
  "call_status_starts_with w r =
     (case call_status r of None \<Rightarrow> False | Some s \<Rightarrow> startswith (lower s) w)"

definition closed_as_claimed :: "CallRecord \<Rightarrow> bool" where
  "closed_as_claimed r =
     (status_is_one_of closed_statuses r \<or> call_status_starts_with ''solved'' r)"

definition closed_on_dashboard :: "CallRecord \<Rightarrow> bool" where
  "closed_on_dashboard r =
     (status_is_one_of closed_statuses r
      \<or> list_ex (\<lambda>w. call_status_starts_with w r) closed_statuses)"

definition pending_as_claimed :: "CallRecord \<Rightarrow> bool" where
  "pending_as_claimed r = status_is_one_of pending_statuses r"

definition pending_on_dashboard :: "CallRecord \<Rightarrow> bool" where
  "pending_on_dashboard r =
     (status_is_one_of pending_statuses r
      \<or> list_ex (\<lambda>w. call_status_starts_with w r) pending_statuses)"

text \<open>
  The resolution-time samples: the records of a frame that carry both timestamps, the
  duration of one of them in nanoseconds, and the test of the two days on it.
\<close>

definition both_present :: "CallRecord \<Rightarrow> bool" where
  "both_present r = (call_entry_datetime r \<noteq> None \<and> call_solved_datetime r \<noteq> None)"

definition duration_ns :: "CallRecord \<Rightarrow> int" where
  "duration_ns r = the (call_solved_datetime r) - the (call_entry_datetime r)"

definition eligible :: "DataFrame \<Rightarrow> CallRecord list" where
  "eligible df =
     (if in_df ''call_entry_datetime'' df \<and> in_df ''call_solved_datetime'' df
      then filter both_present (rows df) else [])"

definition within_two_days :: "CallRecord \<Rightarrow> bool" where
  "within_two_days r = (duration_ns r \<le> 2 * 86400 * 10 ^ 9)"

text \<open>
  The exact percentage of compliant samples; the double that the division and the
  multiplication by 100 give for it; and the whole number of tenths nearest to that
  double, a tie going to the even one.
\<close>

definition sla_percentage :: "DataFrame \<Rightarrow> rat" where
  "sla_percentage df =
     100 * (of_nat (length (filter within_two_days (eligible df)))
            / of_nat (length (eligible df)))"

definition sla_double :: "DataFrame \<Rightarrow> rat" where
  "sla_double df =
     to_double
       (to_double (of_nat (length (filter within_two_days (eligible df)))
                   / of_nat (length (eligible df)))
        * 100)"

definition sla_tenths :: "DataFrame \<Rightarrow> int" where
  "sla_tenths df = round_half_even (sla_double df * 10)"

section \<open>The filter rules in the words of the specification\<close>

text \<open>
  What a criterion contributes to a statement: nothing, one value, or a set of so many
  members. For \<open>fetch_filtered_calls\<close> a criterion is present when it is truthy and a set
  counts its members other than \<open>None\<close> and the empty string; for
  \<open>build_service_calls_query\<close> a criterion is present when it is not \<open>None\<close>.
\<close>

definition nonblank :: "string option list \<Rightarrow> string option list" where
  "nonblank vs = filter (\<lambda>v. v \<noteq> None \<and> v \<noteq> Some []) vs"

datatype shape = Unconstrained | OneValue | Members nat

fun tools_shape :: "criterion option \<Rightarrow> shape" where
  "tools_shape None = Unconstrained"
| "tools_shape (Some (Single s)) = (if s = [] then Unconstrained else OneValue)"
| "tools_shape (Some (Many vs)) =
     (if nonblank vs = [] then Unconstrained else Members (length (nonblank vs)))"

fun builder_shape :: "criterion option \<Rightarrow> shape" where
  "builder_shape None = Unconstrained"
| "builder_shape (Some v) = OneValue"

fun shape_conditions :: "string \<Rightarrow> shape \<Rightarrow> cond list" where
  "shape_conditions column Unconstrained = []"
| "shape_conditions column OneValue = [Eq column]"
| "shape_conditions column (Members n) = [In column n]"

text \<open>The values a filter specification supplies, in the order of the parameter list.\<close>

fun tools_values :: "criterion option \<Rightarrow> param list" where
  "tools_values None = []"
| "tools_values (Some (Single s)) = (if s = [] then [] else [PStr s])"
| "tools_values (Some (Many vs)) = map (\<lambda>v. PStr (the v)) (nonblank vs)"

fun builder_values :: "criterion option \<Rightarrow> param list" where
  "builder_values None = []"
| "builder_values (Some v) = [criterion_param v]"

definition bound_values :: "date_bound option \<Rightarrow> param list" where
  "bound_values b = (if bound_truthy b then [PStr (py_str (the b))] else [])"

definition limit_values :: "int option \<Rightarrow> param list" where
  "limit_values limit = (case limit of None \<Rightarrow> [] | Some n \<Rightarrow> [PInt n])"

definition bound_conditions :: "cond \<Rightarrow> date_bound option \<Rightarrow> cond list" where
  "bound_conditions c b = (if bound_truthy b then [c] else [])"

definition tools_conditions :: "Filters \<Rightarrow> cond list" where
  "tools_conditions f =
     bound_conditions DateGe (start_date f) @ bound_conditions DateLe (end_date f)
     @ concat (map (\<lambda>(key, column). shape_conditions column (tools_shape (criteria f key)))
         FILTER_COLUMN_MAP)"

definition tools_params :: "Filters \<Rightarrow> param list" where
  "tools_params f =
     bound_values (start_date f) @ bound_values (end_date f)
     @ concat (map (\<lambda>(key, column). tools_values (criteria f key)) FILTER_COLUMN_MAP)"

definition builder_conditions :: "Filters \<Rightarrow> cond list" where
  "builder_conditions f =
     concat (map (\<lambda>(key, column). shape_conditions column (builder_shape (criteria f key)))
         BUILDER_COLUMN_MAP)
     @ bound_conditions DateGe (start_date f) @ bound_conditions DateLe (end_date f)"

definition builder_params :: "Filters \<Rightarrow> param list" where
  "builder_params f =
     concat (map (\<lambda>(key, column). builder_values (criteria f key)) BUILDER_COLUMN_MAP)
     @ bound_values (start_date f) @ bound_values (end_date f)"

definition where_text :: "string \<Rightarrow> cond list \<Rightarrow> string" where
  "where_text keyword cs = (if cs \<noteq> [] then keyword @ join '' AND '' (map render cs) else [])"

definition limit_text :: "int option \<Rightarrow> string" where
  "limit_text limit = (case limit of None \<Rightarrow> [] | Some n \<Rightarrow> '' LIMIT ?'')"

text \<open>
  What a row has to satisfy: a single value is matched by equality, a set by membership,
  and a criterion that is absent, empty, or a set with no member left asks for nothing.
\<close>

fun criterion_ok :: "criterion option \<Rightarrow> string option \<Rightarrow> bool" where
  "criterion_ok None v = True"
| "criterion_ok (Some (Single s)) v = (s = [] \<or> v = Some s)"
| "criterion_ok (Some (Many vs)) v = (nonblank vs = [] \<or> v \<in> set (nonblank vs))"

definition bound_ok ::
  "(string option \<Rightarrow> param \<Rightarrow> bool) \<Rightarrow> date_bound option \<Rightarrow> string option \<Rightarrow> bool" where
  "bound_ok cmp b d = (\<not> bound_truthy b \<or> cmp d (PStr (py_str (the b))))"

fun nparams :: "cond \<Rightarrow> nat" where
  "nparams (Eq column) = 1"
| "nparams (In column n) = n"
| "nparams DateGe = 1"
| "nparams DateLe = 1"

section \<open>The distribution in the words of the specification\<close>

text \<open>
  The values a distribution groups: the cells of the column that are not absent, trimmed,
  without the blank ones. \<open>first_seen\<close> lists the distinct values in the order in which
  they first occur. \<open>claimed_order\<close> is the order the specification states: descending
  by count, equal counts ascending by value.

  What \<open>sort_values(ascending=False)\<close> does to the counts, whatever its sort kind: it
  rearranges the entries into descending order of count (\<open>sorts_by_count\<close>), and it
  compares the counts alone, so that other labels on the same counts are rearranged in
  the same way (\<open>reads_counts_only\<close>).
\<close>

definition distribution_values :: "DataFrame \<Rightarrow> string \<Rightarrow> string list" where
  "distribution_values df column =
     filter (\<lambda>v. v \<noteq> []) (map strip (dropna (map (text_column column) (rows df))))"

definition first_seen :: "string list \<Rightarrow> string list" where
  "first_seen xs = rev (remdups (rev xs))"

definition claimed_order :: "(string \<times> nat) list \<Rightarrow> bool" where
  "claimed_order kcs =
     sorted_wrt (\<lambda>a b. snd b < snd a \<or> (snd a = snd b \<and> fst a \<le> fst b)) kcs"

definition sorts_by_count :: "(counts \<Rightarrow> counts) \<Rightarrow> bool" where
  "sorts_by_count sort_values =
     (\<forall>kcs. set (sort_values kcs) = set kcs \<and> length (sort_values kcs) = length kcs
            \<and> sorted_wrt (\<lambda>a b. snd b \<le> snd a) (sort_values kcs))"

definition reads_counts_only :: "(counts \<Rightarrow> counts) \<Rightarrow> bool" where
  "reads_counts_only sort_values =
     (\<forall>f kcs. sort_values (map (\<lambda>kc. (f (fst kc), snd kc)) kcs)
              = map (\<lambda>kc. (f (fst kc), snd kc)) (sort_values kcs))"

section \<open>Repeated issues in the words of the specification\<close>

text \<open>
  The records that take part are those with customer, complaint and entry time. Among
  them, addressed by position, \<open>precedes xs j i\<close> says that \<open>j\<close> is an earlier occurrence
  of the pair of \<open>i\<close>: chronologically, and by position in the input where the
  timestamps are equal. The occurrence that immediately precedes \<open>i\<close> is the one with no
  other in between, and \<open>i\<close> is a repeat when that one is at most 30 days before it.
\<close>

definition repeat_candidates :: "DataFrame \<Rightarrow> CallRecord list" where
  "repeat_candidates df =
     filter (\<lambda>r. customer_name r \<noteq> None \<and> customer_complaint r \<noteq> None
                 \<and> call_entry_datetime r \<noteq> None) (rows df)"

definition entry :: "CallRecord \<Rightarrow> int" where
  "entry r = the (call_entry_datetime r)"

definition thirty_days :: int where
  "thirty_days = 30 * 86400 * 10 ^ 9"

definition precedes :: "CallRecord list \<Rightarrow> nat \<Rightarrow> nat \<Rightarrow> bool" where
  "precedes xs j i =
     (group_cols (xs ! j) = group_cols (xs ! i)
      \<and> (entry (xs ! j) < entry (xs ! i) \<or> (entry (xs ! j) = entry (xs ! i) \<and> j < i)))"

definition immediately_precedes :: "CallRecord list \<Rightarrow> nat \<Rightarrow> nat \<Rightarrow> bool" where
  "immediately_precedes xs j i =
     (precedes xs j i
      \<and> \<not> list_ex (\<lambda>k. precedes xs j k \<and> precedes xs k i) [0..<length xs])"

definition is_repeat :: "CallRecord list \<Rightarrow> nat \<Rightarrow> bool" where
  "is_repeat xs i =
     list_ex (\<lambda>j. immediately_precedes xs j i \<and> entry (xs ! i) - entry (xs ! j) \<le> thirty_days)
       [0..<length xs]"

definition repeated_by_spec :: "DataFrame \<Rightarrow> nat" where
  "repeated_by_spec df =
     length (filter (is_repeat (repeat_candidates df)) [0..<length (repeat_candidates df)])"

text \<open>
  For the proof: the order a stable sort by \<open>k\<close> puts positions in, the count that
  \<open>group_diff\<close> is shown to compute, the relation between its table of last entry times
  and the positions already passed, and the flags computed from the differences.
\<close>

definition position_order :: "(nat \<Rightarrow> 'k::linorder) \<Rightarrow> nat \<Rightarrow> nat \<Rightarrow> bool" where
  "position_order k a b = (k a \<le> k b \<and> (k a = k b \<longrightarrow> a < b))"

definition earlier_within :: "CallRecord list \<Rightarrow> nat list \<Rightarrow> nat \<Rightarrow> bool" where
  "earlier_within xs pre i =
     list_ex (\<lambda>j. group_cols (xs ! j) = group_cols (xs ! i)
                  \<and> entry (xs ! i) - entry (xs ! j) \<le> thirty_days) pre"

fun count_repeats :: "CallRecord list \<Rightarrow> nat list \<Rightarrow> nat list \<Rightarrow> nat" where
  "count_repeats xs pre [] = 0"
| "count_repeats xs pre (i # is) =
     (if earlier_within xs pre i then 1 else 0) + count_repeats xs (pre @ [i]) is"

definition last_seen ::
  "CallRecord list \<Rightarrow> (string \<times> string \<rightharpoonup> int) \<Rightarrow> nat list \<Rightarrow> bool" where
  "last_seen xs prev pre =
     (\<forall>g. case prev g of
            None \<Rightarrow> \<forall>j \<in> set pre. group_cols (xs ! j) \<noteq> g
          | Some p \<Rightarrow> (\<exists>j \<in> set pre. group_cols (xs ! j) = g \<and> entry (xs ! j) = p)
                      \<and> (\<forall>j \<in> set pre. group_cols (xs ! j) = g \<longrightarrow> entry (xs ! j) \<le> p))"

definition diff_flags :: "int option list \<Rightarrow> bool list" where
  "diff_flags ds =
     map (\<lambda>d. case d of None \<Rightarrow> False | Some x \<Rightarrow> x \<le> 30) (map (map_option days) ds)"

section \<open>Example records\<close>

text \<open>
  A record with every optional column absent, the column labels of \<open>service_calls\<close> that
  the record type carries, and the frame a query over the table returns.
\<close>

definition blank_call :: CallRecord where
  "blank_call = \<lparr>call_id = 0, customer_name = None, state = None, model = None,
     visited_engineer_name = None, call_entry_datetime = None, call_solved_datetime = None,
     customer_complaint = None, call_type = None, nature_of_complaint = None,
     call_status = None, status = None, forward_employee_name = None,
     instrument_status = None, other_columns = []\<rparr>"

definition service_calls_columns :: "string list" where
  "service_calls_columns = [''call_id'', ''customer_name'', ''address'', ''state'',
     ''geo_loc_lat'', ''geo_loc_lon'', ''geo_loc_pincode'', ''model'',
     ''instrument_serial_no'', ''warranty_expiry_date'', ''zone'', ''priority'',
     ''visited_engineer_name'', ''ticket_no'', ''call_entry_datetime'',
     ''start_call_datetime'', ''call_solved_datetime'', ''call_aging'', ''response_time'',
     ''recovery_time'', ''customer_complaint'', ''call_type'', ''nature_of_complaint'',
     ''complaint_description'', ''call_status'', ''status'', ''visitor_remarks'',
     ''forward_employee_name'', ''instrument_status'']"

definition frame :: "CallRecord list \<Rightarrow> DataFrame" where
  "frame rs = \<lparr>columns = service_calls_columns, rows = rs\<rparr>"

definition closed_only_by_call_status :: CallRecord where
  "closed_only_by_call_status = blank_call\<lparr>call_status := Some ''Closed''\<rparr>"

definition pending_only_by_call_status :: CallRecord where
  "pending_only_by_call_status = blank_call\<lparr>call_status := Some ''Pending parts''\<rparr>"

definition two_day_call :: CallRecord where
  "two_day_call = blank_call\<lparr>call_entry_datetime := Some (1704067200 * 10 ^ 9),
     call_solved_datetime := Some (1704240000 * 10 ^ 9)\<rparr>"

definition three_day_call :: CallRecord where
  "three_day_call = blank_call\<lparr>call_entry_datetime := Some (1704067200 * 10 ^ 9),
     call_solved_datetime := Some (1704326400 * 10 ^ 9)\<rparr>"

definition compliant_of_80 :: "nat \<Rightarrow> CallRecord list" where
  "compliant_of_80 c = replicate c two_day_call @ replicate (80 - c) three_day_call"


text \<open>
  For the examples, the two functions of the libraries: a \<open>Series.mean\<close> that adds the
  doubles of the samples from left to right, and an \<open>AVG\<close> over the hours between entry and
  solution of each row.
\<close>

definition sequential_mean :: "rat list \<Rightarrow> rat" where
  "sequential_mean xs =
     to_double (foldl (\<lambda>a x. to_double (a + to_double x)) 0 xs / of_nat (length xs))"


text \<open>
  Two filter specifications with the same criteria present and the same number of set
  members, and different values; a specification with a set of blanks; a row.
\<close>

definition texas_filters :: Filters where
  "texas_filters = \<lparr>start_date = Some (BoundDate (Date 2024 1 5)), end_date = None,
     criteria = [''state'' \<mapsto> Many [Some ''TX'', None, Some ''CA''],
                 ''status'' \<mapsto> Single ''Solved'']\<rparr>"

definition blank_set_filters :: Filters where
  "blank_set_filters =
     texas_filters\<lparr>criteria := (criteria texas_filters)(''model'' \<mapsto> Many [None, Some []])\<rparr>"

definition hostile_filters :: Filters where
  "hostile_filters = \<lparr>start_date = Some (BoundStr ''2023-12-31''), end_date = None,
     criteria = [''state'' \<mapsto> Many [Some ''x) OR (1=1'', Some ''NY'', Some []],
                 ''status'' \<mapsto> Single ''Open; DROP TABLE service_calls'']\<rparr>"

definition texas_call :: CallRecord where
  "texas_call = blank_call\<lparr>state := Some ''TX'', status := Some ''Solved''\<rparr>"

text \<open>
  The column of the distribution example of the specification, and a column of two
  values that occur once each.
\<close>

definition spec_example_states :: "CallRecord list" where
  "spec_example_states =
     map (\<lambda>v. blank_call\<lparr>state := v\<rparr>) [Some ''TX'', Some ''TX'', Some ''CA'', Some [], None]"

definition tied_states :: "CallRecord list" where
  "tied_states = map (\<lambda>v. blank_call\<lparr>state := v\<rparr>) [Some ''B'', Some ''A'']"

definition zone_calls :: "CallRecord list" where
  "zone_calls =
     [blank_call\<lparr>other_columns := [(''zone'', ''North'')]\<rparr>,
      blank_call\<lparr>other_columns := [(''zone'', ''South '')]\<rparr>,
      blank_call,
      blank_call\<lparr>other_columns := [(''zone'', '' North'')]\<rparr>]"

text \<open>
  For the examples, two sorts of the counts: one that leaves equal counts in the order
  in which it finds them, and one that reverses them.
\<close>

definition stable_sort_values :: "counts \<Rightarrow> counts" where
  "stable_sort_values kcs = sort_key (\<lambda>kc. - int (snd kc)) kcs"

definition reversing_sort_values :: "counts \<Rightarrow> counts" where
  "reversing_sort_values kcs = rev (sort_key (\<lambda>kc. int (snd kc)) kcs)"

text \<open>
  The repeated-issue example of the specification: customer A, complaint "leak", entries
  on day 0, day 20 and day 55, here with the latest first.
\<close>

definition leak_call :: "int \<Rightarrow> CallRecord" where
  "leak_call day = blank_call\<lparr>customer_name := Some ''A'', customer_complaint := Some ''leak'',
     call_entry_datetime := Some (day * 86400 * 10 ^ 9)\<rparr>"

definition leak_calls :: "CallRecord list" where
  "leak_calls = [leak_call 55, leak_call 0, leak_call 20]"

section \<open>Properties\<close>

subsection \<open>Doubles\<close>

lemma round_half_even_error: "\<bar>of_int (round_half_even y) - y\<bar> \<le> 1 / 2"
  unfolding round_half_even_def Let_def
  by (auto simp: abs_if) linarith+

lemma pow2_pos: "0 < pow2 e"
  by (simp add: pow2_def)

lemma pow2_powi: "pow2 e = 2 powi e"
  by (simp add: pow2_def power_int_def power_one_over)

lemma pow2_diff_nat: "pow2 (int a - int b) = 2 ^ a / 2 ^ b"
  by (simp add: pow2_powi power_int_diff)

lemma pow2_minus_52: "pow2 (e - 52) = pow2 e / 2 ^ 52"
proof -
  have "pow2 (e - 52) = pow2 e / 2 powi 52"
    by (simp only: pow2_powi) (rule power_int_diff, simp)
  then show ?thesis by simp
qed

lemma log2_floor_le:
  assumes "0 < x"
  shows "pow2 (log2_floor x) \<le> x"
proof -
  obtain p q where pq: "quotient_of x = (p, q)" by (cases "quotient_of x")
  then have q: "0 < q" and x: "x = of_int p / of_int q"
    by (rule quotient_of_denom_pos, rule quotient_of_div)
  with assms have p: "0 < p"
    by (simp add: zero_less_divide_iff)
  let ?d = "bitlen p - bitlen q"
  have bp: "2 ^ nat (bitlen p - 1) \<le> p" using bitlen_bounds [OF p] by simp
  have bq: "q < 2 ^ nat (bitlen q)" using bitlen_bounds [OF q] by simp
  have bp1: "1 \<le> bitlen p" using p by (simp add: bitlen_def floorlog_def)
  have bq0: "0 \<le> bitlen q" by (simp add: bitlen_def)
  have "?d - 1 = int (nat (bitlen p - 1)) - int (nat (bitlen q))"
    using bp1 bq0 by simp
  then have "pow2 (?d - 1) = 2 ^ nat (bitlen p - 1) / 2 ^ nat (bitlen q)"
    by (simp only: pow2_diff_nat)
  also have "\<dots> \<le> of_int p / 2 ^ nat (bitlen q)"
  proof -
    have "(2::rat) ^ nat (bitlen p - 1) \<le> of_int p"
      using bp by (metis of_int_le_iff of_int_numeral of_int_power)
    then show ?thesis by (simp add: divide_right_mono)
  qed
  also have "\<dots> \<le> of_int p / of_int q"
  proof -
    have "rat_of_int q \<le> 2 ^ nat (bitlen q)"
      using bq by (metis less_imp_le of_int_le_iff of_int_numeral of_int_power)
    then show ?thesis using p q by (simp add: frac_le)
  qed
  finally have low: "pow2 (?d - 1) \<le> x" using x by simp
  show ?thesis
    using low pq by (simp add: log2_floor_def Let_def)
qed

text \<open>A double is within half a unit in the last place of the number it rounds.\<close>

lemma to_double_error: "\<bar>to_double x - x\<bar> \<le> \<bar>x\<bar> / 2 ^ 53"
proof (cases "x = 0")
  case True
  then show ?thesis by (simp add: to_double_def)
next
  case False
  define u where "u = pow2 (log2_floor \<bar>x\<bar> - 52)"
  have u: "0 < u" by (simp add: u_def pow2_pos)
  have "u * 2 ^ 52 = pow2 (log2_floor \<bar>x\<bar>)"
    by (simp add: u_def pow2_minus_52)
  also have "\<dots> \<le> \<bar>x\<bar>" using False by (simp add: log2_floor_le)
  finally have ux: "u * 2 ^ 52 \<le> \<bar>x\<bar>" .
  have t: "to_double x = of_int (round_half_even (x / u)) * u"
    using False by (simp add: to_double_def u_def Let_def)
  have "to_double x - x = (of_int (round_half_even (x / u)) - x / u) * u"
    using u by (simp add: t field_simps)
  then have "\<bar>to_double x - x\<bar> = \<bar>of_int (round_half_even (x / u)) - x / u\<bar> * u"
    using u by (simp add: abs_mult)
  also have "\<dots> \<le> 1 / 2 * u"
    using round_half_even_error [of "x / u"] u by (simp add: mult_right_mono)
  also have "\<dots> \<le> \<bar>x\<bar> / 2 ^ 53"
    using ux by simp
  finally show ?thesis .
qed

text \<open>
  The percentage of \<open>h\<close> out of \<open>n\<close> as \<open>compute_kpis\<close> computes it: the double before
  rounding is within \<open>1 / 10 ^ 13\<close> of the exact percentage, and the rounded one within \<open>0.05\<close> of
  it, up to \<open>1 / 10 ^ 12\<close>.
\<close>

lemma percentage_error:
  assumes "h \<le> n" and "0 < n"
  shows "\<bar>to_double (to_double (of_nat h / of_nat n) * 100) - 100 * (of_nat h / of_nat n)\<bar>
           \<le> 1 / 10 ^ 13"
    and "\<bar>py_round (to_double (to_double (of_nat h / of_nat n) * 100)) 1
            - 100 * (of_nat h / of_nat n)\<bar> \<le> 1 / 20 + 1 / 10 ^ 12"
proof -
  define q :: rat where "q = of_nat h / of_nat n"
  define fq where "fq = to_double q"
  define p where "p = to_double (fq * 100)"
  define m where "m = round_half_even (p * 10)"
  define c :: rat where "c = 1 / 2 ^ 53"
  have c: "0 < c" "c \<le> 1 / 9000000000000000" by (simp_all add: c_def)
  have err: "\<bar>to_double x - x\<bar> \<le> \<bar>x\<bar> * c" for x
    using to_double_error [of x] by (simp add: c_def)
  have q0: "0 \<le> q" by (simp add: q_def)
  have q1: "q \<le> 1" using assms by (simp add: q_def)
  have e1: "\<bar>fq - q\<bar> \<le> c"
  proof -
    have "\<bar>fq - q\<bar> \<le> \<bar>q\<bar> * c" unfolding fq_def by (rule err)
    also have "\<dots> \<le> 1 * c" using q0 q1 c by (intro mult_right_mono) simp_all
    finally show ?thesis by simp
  qed
  have fq2: "\<bar>fq * 100\<bar> \<le> 200" using e1 q0 q1 c by linarith
  have e2: "\<bar>p - fq * 100\<bar> \<le> 200 * c"
  proof -
    have "\<bar>p - fq * 100\<bar> \<le> \<bar>fq * 100\<bar> * c" unfolding p_def by (rule err)
    also have "\<dots> \<le> 200 * c" using fq2 c by (intro mult_right_mono) simp_all
    finally show ?thesis .
  qed
  have ep: "\<bar>p - 100 * q\<bar> \<le> 300 * c" using e1 e2 by linarith
  then have "\<bar>p - 100 * q\<bar> \<le> 1 / 10000000000000" using c by linarith
  then show "\<bar>to_double (to_double (of_nat h / of_nat n) * 100) - 100 * (of_nat h / of_nat n)\<bar>
           \<le> 1 / 10 ^ 13"
    unfolding p_def fq_def q_def by simp
  have e3: "\<bar>of_int m - p * 10\<bar> \<le> 1 / 2" unfolding m_def by (rule round_half_even_error)
  have m101: "\<bar>rat_of_int m / 10\<bar> \<le> 101" using e3 ep q0 q1 c by linarith
  have e4: "\<bar>to_double (of_int m / 10) - of_int m / 10\<bar> \<le> 101 * c"
  proof -
    have "\<bar>to_double (of_int m / 10) - of_int m / 10\<bar> \<le> \<bar>rat_of_int m / 10\<bar> * c"
      by (rule err)
    also have "\<dots> \<le> 101 * c" using m101 c by (intro mult_right_mono) simp_all
    finally show ?thesis .
  qed
  have "\<bar>to_double (of_int m / 10) - 100 * q\<bar> \<le> 1 / 20 + 1 / 1000000000000"
    using e3 e4 ep c by linarith
  then show "\<bar>py_round (to_double (to_double (of_nat h / of_nat n) * 100)) 1
            - 100 * (of_nat h / of_nat n)\<bar> \<le> 1 / 20 + 1 / 10 ^ 12"
    unfolding py_round_def m_def p_def fq_def q_def by simp
qed

subsection \<open>What \<open>compute_kpis\<close> returns\<close>

lemma mask_sum_map2_or:
  "mask_sum (map2 (\<or>) (map f xs) (map g xs)) = length (filter (\<lambda>x. f x \<or> g x) xs)"
  by (induction xs) (auto simp: mask_sum_def)

lemma lower_closed_statuses: "map lower closed_statuses = closed_statuses"
  by (simp add: closed_statuses_def lower_def lower_char_def less_eq_char_def)

lemma lower_pending_statuses: "map lower pending_statuses = pending_statuses"
  by (simp add: pending_statuses_def lower_def lower_char_def less_eq_char_def)

lemma status_matches_both:
  assumes "in_df ''status'' df" "in_df ''call_status'' df"
  shows "mask_sum (status_matches df ws) =
         length (filter (\<lambda>r. lower (fillna (status r)) \<in> set (map lower ws)
                    \<or> list_ex (\<lambda>w. startswith (lower (fillna (call_status r))) w) (map lower ws)) (rows df))"
  using assms
  by (simp add: status_matches_def df_get_def text_column_def Let_def mask_sum_map2_or
      del: set_map)

lemma sum_list_indicator:
  "sum_list (map (\<lambda>r. if P r then 1 else 0) db) = length (filter P db)"
  by (induction db) auto

lemma sql_sum_indicator:
  "or_zero (sql_sum (map (\<lambda>r. if P r then 1 else 0) db)) = length (filter P db)"
proof (cases "db = []")
  case True
  then show ?thesis by (simp add: or_zero_def sql_sum_def)
next
  case False
  then show ?thesis by (simp add: or_zero_def sql_sum_def sum_list_indicator)
qed

lemma status_matches_no_rows: "rows df = [] \<Longrightarrow> mask_sum (status_matches df ws) = 0"
  by (simp add: status_matches_def df_get_def mask_sum_def)

lemma resolution_days_no_rows: "rows df = [] \<Longrightarrow> resolution_days df = []"
  by (simp add: resolution_days_def)

lemma compute_kpis_InrD:
  assumes "compute_kpis series_mean df = Inr k"
  shows "KPIs.total_calls k = length (rows df)"
    and "KPIs.closed_calls k = mask_sum (status_matches df closed_statuses)"
    and "KPIs.pending_calls k = mask_sum (status_matches df pending_statuses)"
    and "KPIs.sla_compliance k =
           (if resolution_days df = [] then 0
            else py_round
                   (to_double
                      (to_double
                         (of_nat (length (filter (\<lambda>d. d \<le> 2) (resolution_days df)))
                          / of_nat (length (resolution_days df)))
                       * 100)) 1)"
proof -
  show "KPIs.total_calls k = length (rows df)"
    using assms unfolding compute_kpis_def Let_def
    by (auto split: if_splits sum.splits)
  show "KPIs.closed_calls k = mask_sum (status_matches df closed_statuses)"
    using assms unfolding compute_kpis_def Let_def closed_statuses_def
    by (auto simp: status_matches_no_rows split: if_splits sum.splits)
  show "KPIs.pending_calls k = mask_sum (status_matches df pending_statuses)"
    using assms unfolding compute_kpis_def Let_def pending_statuses_def
    by (auto simp: status_matches_no_rows split: if_splits sum.splits)
  show "KPIs.sla_compliance k =
           (if resolution_days df = [] then 0
            else py_round
                   (to_double
                      (to_double
                         (of_nat (length (filter (\<lambda>d. d \<le> 2) (resolution_days df)))
                          / of_nat (length (resolution_days df)))
                       * 100)) 1)"
    using assms unfolding compute_kpis_def Let_def
    by (auto simp: resolution_days_no_rows split: if_splits sum.splits)
qed

lemma compute_kpis_total:
  assumes "in_df ''customer_name'' df" "in_df ''customer_complaint'' df"
    "in_df ''call_entry_datetime'' df"
  shows "\<exists>k. compute_kpis series_mean df = Inr k"
  using assms unfolding compute_kpis_def repeated_issue_count_def Let_def
  by (simp split: sum.splits)

subsection \<open>Closed and pending calls\<close>

lemma closed_as_claimed_sql:
  "(lower (fillna (status r)) \<in> set [''solved'', ''closed'', ''completed'', ''resolved'']
     \<or> startswith (lower (fillna (call_status r))) ''solved'') = closed_as_claimed r"
  by (cases "status r"; cases "call_status r")
     (simp_all add: closed_as_claimed_def status_is_one_of_def call_status_starts_with_def
        closed_statuses_def fillna_def lower_def startswith_def)

lemma pending_as_claimed_sql:
  "(lower (fillna (status r))
      \<in> set [''pending'', ''processing'', ''unsolved'', ''open'', ''in progress''])
   = pending_as_claimed r"
  by (cases "status r")
     (simp_all add: pending_as_claimed_def status_is_one_of_def pending_statuses_def
        fillna_def lower_def)

lemma closed_on_dashboard_mask:
  "(lower (fillna (status r)) \<in> set closed_statuses
     \<or> list_ex (\<lambda>w. startswith (lower (fillna (call_status r))) w) closed_statuses)
   = closed_on_dashboard r"
  by (cases "status r"; cases "call_status r")
     (simp_all add: closed_on_dashboard_def status_is_one_of_def call_status_starts_with_def
        closed_statuses_def fillna_def lower_def startswith_def)

lemma pending_on_dashboard_mask:
  "(lower (fillna (status r)) \<in> set pending_statuses
     \<or> list_ex (\<lambda>w. startswith (lower (fillna (call_status r))) w) pending_statuses)
   = pending_on_dashboard r"
  by (cases "status r"; cases "call_status r")
     (simp_all add: pending_on_dashboard_def status_is_one_of_def call_status_starts_with_def
        pending_statuses_def fillna_def lower_def startswith_def)

lemma lower_examples:
  "lower ''Solved'' = ''solved''" "lower ''solved'' = ''solved''"
  "lower ''Solved - OK'' = ''solved - ok''"
  by code_simp+

text \<open>
  What \<open>_status_matches\<close> makes of the two counts of \<open>compute_kpis\<close>: the test on \<open>status\<close>
  is the exact one, and \<open>call_status\<close> is tested for a prefix among all the target words
  of the count, for the closed calls and for the pending calls alike.
\<close>

lemma compute_kpis_status_counts:
  assumes "in_df ''status'' df" and "in_df ''call_status'' df"
    and "compute_kpis series_mean df = Inr k"
  shows "KPIs.closed_calls k = length (filter closed_on_dashboard (rows df))"
    and "KPIs.pending_calls k = length (filter pending_on_dashboard (rows df))"
proof -
  have "KPIs.closed_calls k = mask_sum (status_matches df closed_statuses)"
    using assms(3) by (rule compute_kpis_InrD(2))
  also have "\<dots> = length (filter closed_on_dashboard (rows df))"
    using assms(1,2)
    by (simp add: status_matches_both lower_closed_statuses closed_on_dashboard_mask)
  finally show "KPIs.closed_calls k = length (filter closed_on_dashboard (rows df))" .
  have "KPIs.pending_calls k = mask_sum (status_matches df pending_statuses)"
    using assms(3) by (rule compute_kpis_InrD(3))
  also have "\<dots> = length (filter pending_on_dashboard (rows df))"
    using assms(1,2)
    by (simp add: status_matches_both lower_pending_statuses pending_on_dashboard_mask)
  finally show "KPIs.pending_calls k = length (filter pending_on_dashboard (rows df))" .
qed

text \<open>
  C1. \<open>closed_calls\<close> is the number of records whose \<open>status\<close>, lower-cased, is exactly one
  of solved, closed, completed, resolved, or whose \<open>call_status\<close>, lower-cased, starts with
  "solved". \<open>get_stats\<close> counts exactly these records, on every table, and the three
  records the specification names are among them. \<open>compute_kpis\<close> does not count by this
  rule: on the frame of one record with no \<open>status\<close> and the \<open>call_status\<close> "Closed", a
  record that the rule does not count and that \<open>get_stats\<close> does not count, it returns
  \<open>closed_calls = 1\<close>.
\<close>

theorem closed_calls_dashboard_divergence:
  "KPIStats.closed_calls (get_stats avg_hours db) = length (filter closed_as_claimed db)
   \<and> closed_as_claimed (blank_call\<lparr>status := Some ''Solved''\<rparr>)
   \<and> closed_as_claimed (blank_call\<lparr>call_status := Some ''Solved - OK''\<rparr>)
   \<and> closed_as_claimed (blank_call\<lparr>status := Some ''solved''\<rparr>)
   \<and> \<not> closed_as_claimed closed_only_by_call_status
   \<and> KPIStats.closed_calls (get_stats avg_hours [closed_only_by_call_status]) = 0
   \<and> compute_kpis series_mean (frame [closed_only_by_call_status])
       = Inr \<lparr>KPIs.total_calls = 1, closed_calls = 1, pending_calls = 0,
              avg_resolution_days = 0, sla_compliance = 0, repeated_issues = 0\<rparr>"
proof -
  have g: "KPIStats.closed_calls (get_stats avg_hours db) = length (filter closed_as_claimed db)"
    for db
    by (simp add: get_stats_def Let_def closed_as_claimed_sql sql_sum_indicator del: set_simps)
  have s: "closed_as_claimed (blank_call\<lparr>status := Some ''Solved''\<rparr>)"
    "closed_as_claimed (blank_call\<lparr>call_status := Some ''Solved - OK''\<rparr>)"
    "closed_as_claimed (blank_call\<lparr>status := Some ''solved''\<rparr>)"
    "\<not> closed_as_claimed closed_only_by_call_status"
    by code_simp+
  have z: "KPIStats.closed_calls (get_stats avg_hours [closed_only_by_call_status]) = 0"
    using s(4) by (simp add: g)
  have k: "compute_kpis series_mean (frame [closed_only_by_call_status])
       = Inr \<lparr>KPIs.total_calls = 1, closed_calls = 1, pending_calls = 0,
              avg_resolution_days = 0, sla_compliance = 0, repeated_issues = 0\<rparr>"
    by code_simp
  from g s z k show ?thesis by simp
qed

text \<open>
  C2. \<open>pending_calls\<close> is the number of records whose \<open>status\<close> alone, lower-cased, is
  exactly one of pending, processing, unsolved, open, "in progress". \<open>get_stats\<close> counts
  exactly these records, on every table. \<open>compute_kpis\<close> does not leave \<open>call_status\<close> out:
  on the frame of one record with no \<open>status\<close> and the \<open>call_status\<close> "Pending parts", a
  record that the rule does not count and that \<open>get_stats\<close> does not count, it returns
  \<open>pending_calls = 1\<close>.
\<close>

theorem pending_calls_dashboard_divergence:
  "KPIStats.pending_calls (get_stats avg_hours db) = length (filter pending_as_claimed db)
   \<and> \<not> pending_as_claimed pending_only_by_call_status
   \<and> KPIStats.pending_calls (get_stats avg_hours [pending_only_by_call_status]) = 0
   \<and> compute_kpis series_mean (frame [pending_only_by_call_status])
       = Inr \<lparr>KPIs.total_calls = 1, closed_calls = 0, pending_calls = 1,
              avg_resolution_days = 0, sla_compliance = 0, repeated_issues = 0\<rparr>"
proof -
  have g: "KPIStats.pending_calls (get_stats avg_hours db) = length (filter pending_as_claimed db)"
    for db
    by (simp add: get_stats_def Let_def pending_as_claimed_sql sql_sum_indicator del: set_simps)
  have s: "\<not> pending_as_claimed pending_only_by_call_status"
    by code_simp
  have z: "KPIStats.pending_calls (get_stats avg_hours [pending_only_by_call_status]) = 0"
    using s by (simp add: g)
  have k: "compute_kpis series_mean (frame [pending_only_by_call_status])
       = Inr \<lparr>KPIs.total_calls = 1, closed_calls = 0, pending_calls = 1,
              avg_resolution_days = 0, sla_compliance = 0, repeated_issues = 0\<rparr>"
    by code_simp
  from g s z k show ?thesis by simp
qed

subsection \<open>Resolution time and SLA compliance\<close>

lemma resolution_days_eligible:
  "resolution_days df = map (\<lambda>r. days (duration_ns r)) (eligible df)"
proof -
  have b: "both_present = (\<lambda>r. call_entry_datetime r \<noteq> None \<and> call_solved_datetime r \<noteq> None)"
    by (simp add: fun_eq_iff both_present_def)
  show ?thesis
    unfolding resolution_days_def eligible_def b duration_ns_def Let_def
    by (simp del: not_None_eq)
qed

lemma days_le_two: "(days n \<le> 2) = (n \<le> 2 * 86400 * 10 ^ 9)"
proof -
  have "(days n \<le> 2) = (rat_of_int n \<le> rat_of_int (2 * 86400 * 10 ^ 9))"
    by (simp add: days_def field_simps)
  then show ?thesis by (simp only: of_int_le_iff)
qed

lemma sla_hits:
  "filter (\<lambda>d. d \<le> 2) (map (\<lambda>r. days (duration_ns r)) xs)
     = map (\<lambda>r. days (duration_ns r)) (filter within_two_days xs)"
  by (induction xs) (simp_all add: within_two_days_def days_le_two)

lemma sla_hits_length:
  "length (filter (\<lambda>d. d \<le> 2) (map (\<lambda>r. days (duration_ns r)) xs))
     = length (filter within_two_days xs)"
  by (simp add: sla_hits)

text \<open>
  C5, as the code has it. The samples are the records with both timestamps, and a sample
  is compliant when its resolution takes at most two days, the two days included.
  \<open>sla_compliance\<close> is 0 when there is no sample. Otherwise it is the double nearest to
  \<open>t / 10\<close>, where \<open>t\<close> is the whole number nearest to ten times the percentage as the doubles
  give it (\<open>sla_double\<close>): a value with one decimal place that lies within 0.05 of the exact
  percentage, up to \<open>1 / 10 ^ 12\<close>. It is not always the exact percentage rounded to one
  decimal place.
\<close>

theorem sla_compliance_rule:
  assumes "compute_kpis series_mean df = Inr k"
  shows "(eligible df = [] \<longrightarrow> KPIs.sla_compliance k = 0)
       \<and> (eligible df \<noteq> [] \<longrightarrow>
            KPIs.sla_compliance k = to_double (of_int (sla_tenths df) / 10)
            \<and> \<bar>of_int (sla_tenths df) - sla_double df * 10\<bar> \<le> 1 / 2
            \<and> \<bar>sla_double df - sla_percentage df\<bar> \<le> 1 / 10 ^ 13
            \<and> \<bar>KPIs.sla_compliance k - sla_percentage df\<bar> \<le> 1 / 20 + 1 / 10 ^ 12)"
proof -
  let ?h = "length (filter within_two_days (eligible df))"
  let ?n = "length (eligible df)"
  have v: "KPIs.sla_compliance k =
      (if eligible df = [] then 0
       else py_round (to_double (to_double (of_nat ?h / of_nat ?n) * 100)) 1)"
    using compute_kpis_InrD(4) [OF assms]
    unfolding resolution_days_eligible sla_hits_length by simp
  have h: "?h \<le> ?n" by simp
  show ?thesis
  proof (intro conjI impI)
    assume "eligible df = []"
    then show "KPIs.sla_compliance k = 0" by (simp add: v)
  next
    assume ne: "eligible df \<noteq> []"
    then show "KPIs.sla_compliance k = to_double (of_int (sla_tenths df) / 10)"
      by (simp add: v py_round_def sla_tenths_def sla_double_def mult.commute)
  next
    assume "eligible df \<noteq> []"
    show "\<bar>of_int (sla_tenths df) - sla_double df * 10\<bar> \<le> 1 / 2"
      unfolding sla_tenths_def by (rule round_half_even_error)
  next
    assume "eligible df \<noteq> []"
    then have "0 < ?n" by simp
    from percentage_error(1) [OF h this]
    show "\<bar>sla_double df - sla_percentage df\<bar> \<le> 1 / 10 ^ 13"
      by (simp add: sla_double_def sla_percentage_def)
  next
    assume ne: "eligible df \<noteq> []"
    then have "0 < ?n" by simp
    from percentage_error(2) [OF h this] ne
    show "\<bar>KPIs.sla_compliance k - sla_percentage df\<bar> \<le> 1 / 20 + 1 / 10 ^ 12"
      by (simp add: v sla_percentage_def)
  qed
qed

text \<open>
  The example of the specification: entry 2024-01-01T00:00:00, solved 2024-01-03T00:00:00,
  exactly two days, is compliant, and alone it gives 100. With a second record that takes
  three days the compliance is 50.
\<close>

theorem sla_compliance_rule_witness:
  "compute_kpis sequential_mean (frame [two_day_call, three_day_call])
     = Inr \<lparr>KPIs.total_calls = 2, closed_calls = 0, pending_calls = 0,
            avg_resolution_days = 5 / 2, sla_compliance = 50, repeated_issues = 0\<rparr>
   \<and> eligible (frame [two_day_call, three_day_call]) = [two_day_call, three_day_call]
   \<and> duration_ns two_day_call = 2 * 86400 * 10 ^ 9
   \<and> within_two_days two_day_call \<and> \<not> within_two_days three_day_call
   \<and> sla_percentage (frame [two_day_call, three_day_call]) = 50
   \<and> sla_tenths (frame [two_day_call, three_day_call]) = 500
   \<and> to_double (of_int (sla_tenths (frame [two_day_call, three_day_call])) / 10) = 50"
proof -
  let ?df = "frame [two_day_call, three_day_call]"
  let ?k = "\<lparr>KPIs.total_calls = 2, closed_calls = 0, pending_calls = 0,
            avg_resolution_days = 5 / 2, sla_compliance = 50, repeated_issues = 0\<rparr>"
  have k: "compute_kpis sequential_mean ?df = Inr ?k"
    by code_simp
  have e: "eligible ?df = [two_day_call, three_day_call]"
    by code_simp
  have d: "duration_ns two_day_call = 2 * 86400 * 10 ^ 9"
    "within_two_days two_day_call" "\<not> within_two_days three_day_call"
    by code_simp+
  have p: "sla_percentage ?df = 50" "sla_tenths ?df = 500"
    by code_simp+
  from sla_compliance_rule [OF k] k e d p show ?thesis by simp
qed

lemma sla_of_80:
  assumes "c \<le> 80"
  shows "KPIs.sla_compliance (projr (compute_kpis series_mean (frame (compliant_of_80 c))))
           = py_round (to_double (to_double (of_nat c / 80) * 100)) 1"
    and "sla_percentage (frame (compliant_of_80 c)) = 100 * (of_nat c / 80)"
proof -
  let ?df = "frame (compliant_of_80 c)"
  have t: "both_present two_day_call" "both_present three_day_call"
    "within_two_days two_day_call" "\<not> within_two_days three_day_call"
    by code_simp+
  have i: "in_df ''customer_name'' ?df" "in_df ''customer_complaint'' ?df"
    "in_df ''call_entry_datetime'' ?df" "in_df ''call_solved_datetime'' ?df"
    by (simp_all add: frame_def in_df_def service_calls_columns_def)
  have e: "eligible ?df = compliant_of_80 c"
    using i t by (simp add: eligible_def frame_def compliant_of_80_def)
  have n: "length (eligible ?df) = 80"
    using assms unfolding e by (simp add: compliant_of_80_def)
  have h: "length (filter within_two_days (eligible ?df)) = c"
    using t unfolding e by (simp add: compliant_of_80_def)
  have ne: "eligible ?df \<noteq> []"
    using n by auto
  from compute_kpis_total [OF i(1,2,3)]
  obtain k where k: "compute_kpis series_mean ?df = Inr k" by blast
  have "KPIs.sla_compliance k
      = py_round (to_double (to_double (of_nat c / 80) * 100)) 1"
    using compute_kpis_InrD(4) [OF k]
    unfolding resolution_days_eligible sla_hits_length by (simp add: n h ne)
  then show "KPIs.sla_compliance (projr (compute_kpis series_mean ?df))
           = py_round (to_double (to_double (of_nat c / 80) * 100)) 1"
    by (simp add: k)
  show "sla_percentage ?df = 100 * (of_nat c / 80)"
    by (simp add: sla_percentage_def n h)
qed

text \<open>
  Of 80 samples with 23 compliant ones the percentage is 28.75, and \<open>compute_kpis\<close>
  returns the double nearest to 28.7, because the double that it rounds lies below 28.75;
  rounded to one decimal place, to the nearest with a tie going up or to the even digit,
  28.75 is 28.8. With 49 compliant ones the percentage is 61.25 and \<open>compute_kpis\<close>
  returns the double nearest to 61.3, where a tie going down or to the even digit gives
  61.2.
\<close>

theorem sla_compliance_counterexample:
  "sla_percentage (frame (compliant_of_80 23)) = 2875 / 100
   \<and> KPIs.sla_compliance (projr (compute_kpis sequential_mean (frame (compliant_of_80 23))))
       = to_double (287 / 10)
   \<and> to_double (287 / 10) < 287 / 10
   \<and> round_half_even (sla_percentage (frame (compliant_of_80 23)) * 10) = 288
   \<and> sla_percentage (frame (compliant_of_80 49)) = 6125 / 100
   \<and> KPIs.sla_compliance (projr (compute_kpis sequential_mean (frame (compliant_of_80 49))))
       = to_double (613 / 10)
   \<and> 6125 / 100 < to_double (613 / 10)
   \<and> round_half_even (sla_percentage (frame (compliant_of_80 49)) * 10) = 612"
proof -
  have p23: "sla_percentage (frame (compliant_of_80 23)) = 2875 / 100"
    using sla_of_80(2) [of 23] by simp
  have p49: "sla_percentage (frame (compliant_of_80 49)) = 6125 / 100"
    using sla_of_80(2) [of 49] by simp
  have v23: "py_round (to_double (to_double (of_nat 23 / 80) * 100)) 1 = to_double (287 / 10)"
    by code_simp
  have v49: "py_round (to_double (to_double (of_nat 49 / 80) * 100)) 1 = to_double (613 / 10)"
    by code_simp
  have k23: "KPIs.sla_compliance
      (projr (compute_kpis sequential_mean (frame (compliant_of_80 23)))) = to_double (287 / 10)"
    using sla_of_80(1) [of 23 sequential_mean] v23 by simp
  have k49: "KPIs.sla_compliance
      (projr (compute_kpis sequential_mean (frame (compliant_of_80 49)))) = to_double (613 / 10)"
    using sla_of_80(1) [of 49 sequential_mean] v49 by simp
  have c: "to_double (287 / 10) < 287 / 10" "round_half_even (2875 / 100 * 10) = 288"
    "6125 / 100 < to_double (613 / 10)" "round_half_even (6125 / 100 * 10) = 612"
    by code_simp+
  show ?thesis
    unfolding p23 p49 k23 k49 using c by (intro conjI) (rule refl | assumption)+
qed





subsection \<open>Filter queries\<close>

lemma append_criteria_eq:
  "append_criteria kcs get acc =
     (fst acc @ concat (map (\<lambda>(key, column). shape_conditions column (tools_shape (get key))) kcs),
      snd acc @ concat (map (\<lambda>(key, column). tools_values (get key)) kcs))"
proof (induction kcs arbitrary: acc)
  case Nil
  then show ?case by simp
next
  case (Cons kc kcs)
  obtain key column where kc: "kc = (key, column)" by (cases kc)
  obtain cs ps where acc: "acc = (cs, ps)" by (cases acc)
  show ?case
  proof (cases "get key")
    case None
    then show ?thesis by (simp add: kc Cons.IH)
  next
    case (Some v)
    then show ?thesis
      by (cases v) (simp_all add: kc acc Cons.IH nonblank_def Let_def)
  qed
qed

lemma equality_criteria_eq:
  "equality_criteria kcs get acc =
     (fst acc @ concat (map (\<lambda>(key, column). shape_conditions column (builder_shape (get key))) kcs),
      snd acc @ concat (map (\<lambda>(key, column). builder_values (get key)) kcs))"
proof (induction kcs arbitrary: acc)
  case Nil
  then show ?case by simp
next
  case (Cons kc kcs)
  obtain key column where kc: "kc = (key, column)" by (cases kc)
  show ?case
    by (cases "get key") (simp_all add: kc Cons.IH)
qed

lemma fetch_filtered_calls_query_Inr:
  assumes "fetch_filtered_calls_query f limit = Inr q"
  shows "conditions q = tools_conditions f"
    and "params q = tools_params f @ limit_values limit"
    and "sql q = statement_text (where_text ''WHERE '' (tools_conditions f)) (limit_text limit)"
  using assms
  unfolding fetch_filtered_calls_query_def Let_def append_criteria_eq tools_conditions_def
    tools_params_def bound_conditions_def bound_values_def where_text_def limit_text_def
    limit_values_def
  by (auto split: option.splits if_splits)

lemma build_service_calls_query_Inr:
  assumes "build_service_calls_query f limit = Inr q"
  shows "conditions q = builder_conditions f"
    and "params q = builder_params f @ limit_values limit"
    and "sql q = statement_text (where_text '' WHERE '' (builder_conditions f)) (limit_text limit)"
  using assms
  unfolding build_service_calls_query_def Let_def equality_criteria_eq builder_conditions_def
    builder_params_def bound_conditions_def bound_values_def where_text_def limit_text_def
    limit_values_def
  by (auto split: option.splits if_splits)

text \<open>
  C9. On both query paths that take a result-size limit, a limit of zero or below fails
  with the \<open>ValueError\<close> "limit must be positive"; no statement is built and the limit is
  not replaced by another value.
\<close>

theorem nonpositive_limit_rejected:
  "limit \<le> 0 \<Longrightarrow>
     fetch_filtered_calls_query filters (Some limit) = Inl (ValueError ''limit must be positive'')
     \<and> build_service_calls_query filters (Some limit) = Inl (ValueError ''limit must be positive'')"
  by (simp add: fetch_filtered_calls_query_def build_service_calls_query_def Let_def)

text \<open>The limit 0 is rejected by both builders.\<close>

theorem nonpositive_limit_rejected_witness:
  "(0::int) \<le> 0
   \<and> fetch_filtered_calls_query texas_filters (Some 0) = Inl (ValueError ''limit must be positive'')
   \<and> build_service_calls_query texas_filters (Some 0) = Inl (ValueError ''limit must be positive'')"
  using nonpositive_limit_rejected [of 0 texas_filters] by simp

text \<open>
  C6. The statement text depends only on which date bounds and criteria are present, on
  the number of members of each set, and on whether a limit is given: two specifications
  that agree on these yield the same text, whatever their values. The values are the
  bound parameters, in order, followed by the limit.
\<close>

theorem statement_text_independent_of_values:
  assumes "bound_truthy (start_date f) = bound_truthy (start_date g)"
    and "bound_truthy (end_date f) = bound_truthy (end_date g)"
    and "(limit = None) = (limit' = None)"
  shows "((\<forall>key. tools_shape (criteria f key) = tools_shape (criteria g key))
            \<and> fetch_filtered_calls_query f limit = Inr q
            \<and> fetch_filtered_calls_query g limit' = Inr q'
          \<longrightarrow> sql q = sql q' \<and> params q = tools_params f @ limit_values limit)
       \<and> ((\<forall>key. builder_shape (criteria f key) = builder_shape (criteria g key))
            \<and> build_service_calls_query f limit = Inr b
            \<and> build_service_calls_query g limit' = Inr b'
          \<longrightarrow> sql b = sql b' \<and> params b = builder_params f @ limit_values limit)"
proof (intro conjI impI)
  have l: "limit_text limit = limit_text limit'"
    using assms(3) by (cases limit; cases limit') (simp_all add: limit_text_def)
  {
    assume a: "(\<forall>key. tools_shape (criteria f key) = tools_shape (criteria g key))
            \<and> fetch_filtered_calls_query f limit = Inr q
            \<and> fetch_filtered_calls_query g limit' = Inr q'"
    then have q: "fetch_filtered_calls_query f limit = Inr q"
      and q': "fetch_filtered_calls_query g limit' = Inr q'"
      by simp_all
    from a have "tools_conditions f = tools_conditions g"
      using assms(1,2) by (simp add: tools_conditions_def bound_conditions_def)
    then show "sql q = sql q'"
      using l
      by (simp add: fetch_filtered_calls_query_Inr(3) [OF q] fetch_filtered_calls_query_Inr(3) [OF q'])
    show "params q = tools_params f @ limit_values limit"
      by (rule fetch_filtered_calls_query_Inr(2) [OF q])
  }
  {
    assume a: "(\<forall>key. builder_shape (criteria f key) = builder_shape (criteria g key))
            \<and> build_service_calls_query f limit = Inr b
            \<and> build_service_calls_query g limit' = Inr b'"
    then have b: "build_service_calls_query f limit = Inr b"
      and b': "build_service_calls_query g limit' = Inr b'"
      by simp_all
    from a have "builder_conditions f = builder_conditions g"
      using assms(1,2) by (simp add: builder_conditions_def bound_conditions_def)
    then show "sql b = sql b'"
      using l
      by (simp add: build_service_calls_query_Inr(3) [OF b] build_service_calls_query_Inr(3) [OF b'])
    show "params b = builder_params f @ limit_values limit"
      by (rule build_service_calls_query_Inr(2) [OF b])
  }
qed

text \<open>
  Two specifications of the same shape, one of them with values written to break out of a
  statement, give the same text; the values are in the parameters.
\<close>

lemma example_shapes:
  "tools_shape (criteria texas_filters key) = tools_shape (criteria hostile_filters key)"
  by (simp add: texas_filters_def hostile_filters_def nonblank_def)

lemma example_builder_shapes:
  "builder_shape (criteria texas_filters key) = builder_shape (criteria hostile_filters key)"
  by (simp add: texas_filters_def hostile_filters_def)

theorem statement_text_independent_of_values_witness:
  "bound_truthy (start_date texas_filters) = bound_truthy (start_date hostile_filters)
   \<and> bound_truthy (end_date texas_filters) = bound_truthy (end_date hostile_filters)
   \<and> (Some (10::int) = None) = (Some (5::int) = None)
   \<and> sql (projr (fetch_filtered_calls_query texas_filters (Some 10)))
       = sql (projr (fetch_filtered_calls_query hostile_filters (Some 5)))
   \<and> params (projr (fetch_filtered_calls_query texas_filters (Some 10)))
       = [PStr ''2024-01-05'', PStr ''TX'', PStr ''CA'', PStr ''Solved'', PInt 10]
   \<and> params (projr (fetch_filtered_calls_query hostile_filters (Some 5)))
       = [PStr ''2023-12-31'', PStr ''x) OR (1=1'', PStr ''NY'',
          PStr ''Open; DROP TABLE service_calls'', PInt 5]
   \<and> sql (projr (build_service_calls_query texas_filters (Some 10)))
       = sql (projr (build_service_calls_query hostile_filters (Some 5)))"
proof -
  let ?q = "projr (fetch_filtered_calls_query texas_filters (Some 10))"
  let ?q' = "projr (fetch_filtered_calls_query hostile_filters (Some 5))"
  let ?b = "projr (build_service_calls_query texas_filters (Some 10))"
  let ?b' = "projr (build_service_calls_query hostile_filters (Some 5))"
  have d: "bound_truthy (start_date texas_filters) = bound_truthy (start_date hostile_filters)"
    "bound_truthy (end_date texas_filters) = bound_truthy (end_date hostile_filters)"
    by (simp_all add: texas_filters_def hostile_filters_def)
  have l: "(Some (10::int) = None) = (Some (5::int) = None)" by simp
  have q: "fetch_filtered_calls_query texas_filters (Some 10) = Inr ?q"
    "fetch_filtered_calls_query hostile_filters (Some 5) = Inr ?q'"
    by (simp_all add: fetch_filtered_calls_query_def Let_def)
  have b: "build_service_calls_query texas_filters (Some 10) = Inr ?b"
    "build_service_calls_query hostile_filters (Some 5) = Inr ?b'"
    by (simp_all add: build_service_calls_query_def Let_def)
  have p: "tools_params texas_filters @ limit_values (Some 10)
      = [PStr ''2024-01-05'', PStr ''TX'', PStr ''CA'', PStr ''Solved'', PInt 10]"
    by code_simp
  have p': "params ?q' = [PStr ''2023-12-31'', PStr ''x) OR (1=1'', PStr ''NY'',
          PStr ''Open; DROP TABLE service_calls'', PInt 5]"
    by code_simp
  from statement_text_independent_of_values [OF d l, of ?q ?q' ?b ?b']
    example_shapes example_builder_shapes q b p p' d l
  show ?thesis by simp
qed

text \<open>What the \<open>WHERE\<close> clause of \<open>fetch_filtered_calls\<close> keeps.\<close>

lemma where_holds_append:
  "length ps = sum_list (map nparams cs) \<Longrightarrow>
     where_holds ed (cs @ cs') (ps @ ps') r
       = (where_holds ed cs ps r \<and> where_holds ed cs' ps' r)"
proof (induction cs arbitrary: ps)
  case Nil
  then show ?case by simp
next
  case (Cons c cs)
  have "length (drop (nparams c) ps) = sum_list (map nparams cs)"
    using Cons.prems by simp
  from Cons.IH [OF this] Cons.prems show ?case
    by (cases c) (auto simp: )
qed

lemma sql_in_members:
  "sql_in v (map (\<lambda>x. PStr (the x)) (nonblank vs)) = (v \<in> set (nonblank vs))"
  by (induction vs) (auto simp: sql_in_def sql_eq_def nonblank_def)

lemma sql_in_single: "sql_in v [PStr s] = (v = Some s)"
  by (auto simp: sql_in_def sql_eq_def)

lemma tools_values_length:
  "length (tools_values c) = sum_list (map nparams (shape_conditions column (tools_shape c)))"
  by (cases c rule: tools_shape.cases) simp_all

lemma where_holds_criterion:
  "where_holds ed (shape_conditions column (tools_shape c)) (tools_values c) r
     = criterion_ok c (text_column column r)"
  by (cases c rule: tools_shape.cases) (simp_all add: sql_in_members sql_in_single)

lemma where_holds_criteria:
  "where_holds ed
      (concat (map (\<lambda>(key, column). shape_conditions column (tools_shape (get key))) kcs))
      (concat (map (\<lambda>(key, column). tools_values (get key)) kcs) @ rest) r
     = list_all (\<lambda>(key, column). criterion_ok (get key) (text_column column r)) kcs"
proof (induction kcs)
  case Nil
  then show ?case by simp
next
  case (Cons kc kcs)
  obtain key column where kc: "kc = (key, column)" by (cases kc)
  let ?A = "shape_conditions column (tools_shape (get key))"
  let ?B = "concat (map (\<lambda>(key, column). shape_conditions column (tools_shape (get key))) kcs)"
  let ?P = "tools_values (get key)"
  let ?Q = "concat (map (\<lambda>(key, column). tools_values (get key)) kcs) @ rest"
  have "where_holds ed (?A @ ?B) (?P @ ?Q) r
          = (where_holds ed ?A ?P r \<and> where_holds ed ?B ?Q r)"
    by (rule where_holds_append) (rule tools_values_length)
  then show ?case
    by (simp add: kc Cons.IH where_holds_criterion)
qed

lemma where_holds_bound:
  "where_holds ed (bound_conditions DateGe b) (bound_values b) r = bound_ok sql_ge b (ed r)"
  "where_holds ed (bound_conditions DateLe b) (bound_values b) r = bound_ok sql_le b (ed r)"
  by (simp_all add: bound_conditions_def bound_values_def bound_ok_def)

lemma bound_values_length:
  "length (bound_values b) = sum_list (map nparams (bound_conditions c b))"
  if "c = DateGe \<or> c = DateLe"
  using that by (auto simp: bound_conditions_def bound_values_def)

lemma fetch_filtered_calls_query_cong:
  assumes "start_date f = start_date g" and "end_date f = end_date g"
    and "\<And>key. tools_shape (criteria f key) = tools_shape (criteria g key)"
    and "\<And>key. tools_values (criteria f key) = tools_values (criteria g key)"
  shows "fetch_filtered_calls_query f limit = fetch_filtered_calls_query g limit"
  by (simp only: fetch_filtered_calls_query_def append_criteria_eq assms)

text \<open>
  C8. A row is selected by the statement of \<open>fetch_filtered_calls\<close> exactly when it
  satisfies every date bound and every criterion (conjunction over the fields), where a
  set of values is satisfied by a row whose field is one of its members; and a criterion
  whose set has no member other than \<open>None\<close> and the empty string gives the very statement
  that the specification without this criterion gives.
\<close>

theorem criteria_conjunctive_membership:
  assumes "fetch_filtered_calls_query f limit = Inr q"
  shows "where_holds ed (conditions q) (params q) r
           = (bound_ok sql_ge (start_date f) (ed r) \<and> bound_ok sql_le (end_date f) (ed r)
              \<and> list_all (\<lambda>(key, column). criterion_ok (criteria f key) (text_column column r))
                   FILTER_COLUMN_MAP)
         \<and> (criteria f key = Some (Many vs) \<and> nonblank vs = []
              \<longrightarrow> fetch_filtered_calls_query (f\<lparr>criteria := (criteria f)(key := None)\<rparr>) limit
                    = Inr q)"
proof (intro conjI impI)
  let ?A = "bound_conditions DateGe (start_date f)"
  let ?B = "bound_conditions DateLe (end_date f)"
  let ?C = "concat (map (\<lambda>(key, column). shape_conditions column (tools_shape (criteria f key)))
              FILTER_COLUMN_MAP)"
  let ?P = "bound_values (start_date f)"
  let ?Q = "bound_values (end_date f)"
  let ?R = "concat (map (\<lambda>(key, column). tools_values (criteria f key)) FILTER_COLUMN_MAP)
              @ limit_values limit"
  have c: "conditions q = ?A @ ?B @ ?C"
    using fetch_filtered_calls_query_Inr(1) [OF assms] by (simp add: tools_conditions_def)
  have p: "params q = ?P @ ?Q @ ?R"
    using fetch_filtered_calls_query_Inr(2) [OF assms] by (simp add: tools_params_def)
  have 1: "where_holds ed (?A @ ?B @ ?C) (?P @ ?Q @ ?R) r
      = (where_holds ed ?A ?P r \<and> where_holds ed (?B @ ?C) (?Q @ ?R) r)"
    by (rule where_holds_append) (simp add: bound_values_length)
  have 2: "where_holds ed (?B @ ?C) (?Q @ ?R) r
      = (where_holds ed ?B ?Q r \<and> where_holds ed ?C ?R r)"
    by (rule where_holds_append) (simp add: bound_values_length)
  show "where_holds ed (conditions q) (params q) r
           = (bound_ok sql_ge (start_date f) (ed r) \<and> bound_ok sql_le (end_date f) (ed r)
              \<and> list_all (\<lambda>(key, column). criterion_ok (criteria f key) (text_column column r))
                   FILTER_COLUMN_MAP)"
    unfolding c p 1 2 where_holds_bound where_holds_criteria ..
next
  assume a: "criteria f key = Some (Many vs) \<and> nonblank vs = []"
  have "fetch_filtered_calls_query (f\<lparr>criteria := (criteria f)(key := None)\<rparr>) limit
      = fetch_filtered_calls_query f limit"
    by (rule fetch_filtered_calls_query_cong) (use a in auto)
  with assms
  show "fetch_filtered_calls_query (f\<lparr>criteria := (criteria f)(key := None)\<rparr>) limit = Inr q"
    by simp
qed

text \<open>
  A specification with a state set, a status and a set of blanks for the model: a Texas
  row is selected, a New York row is not, and dropping the blank set changes nothing.
\<close>

theorem criteria_conjunctive_membership_witness:
  "criteria blank_set_filters ''model'' = Some (Many [None, Some []])
   \<and> nonblank [None, Some []] = []
   \<and> fetch_filtered_calls_query blank_set_filters None
       = Inr (projr (fetch_filtered_calls_query blank_set_filters None))
   \<and> fetch_filtered_calls_query
         (blank_set_filters\<lparr>criteria := (criteria blank_set_filters)(''model'' := None)\<rparr>) None
       = fetch_filtered_calls_query blank_set_filters None
   \<and> where_holds (\<lambda>r. Some ''2024-02-01'')
         (conditions (projr (fetch_filtered_calls_query blank_set_filters None)))
         (params (projr (fetch_filtered_calls_query blank_set_filters None))) texas_call
   \<and> \<not> where_holds (\<lambda>r. Some ''2024-02-01'')
         (conditions (projr (fetch_filtered_calls_query blank_set_filters None)))
         (params (projr (fetch_filtered_calls_query blank_set_filters None)))
         (texas_call\<lparr>state := Some ''NY''\<rparr>)"
proof -
  let ?q = "projr (fetch_filtered_calls_query blank_set_filters None)"
  let ?ed = "\<lambda>r::CallRecord. Some ''2024-02-01''"
  have q: "fetch_filtered_calls_query blank_set_filters None = Inr ?q"
    by (simp add: fetch_filtered_calls_query_def Let_def)
  have m: "criteria blank_set_filters ''model'' = Some (Many [None, Some []])"
    by (simp add: blank_set_filters_def)
  have n: "nonblank [None, Some []] = []"
    by (simp add: nonblank_def)
  have yes: "bound_ok sql_ge (start_date blank_set_filters) (?ed texas_call)
      \<and> bound_ok sql_le (end_date blank_set_filters) (?ed texas_call)
      \<and> list_all (\<lambda>(key, column).
             criterion_ok (criteria blank_set_filters key) (text_column column texas_call))
           FILTER_COLUMN_MAP"
    by code_simp
  have no: "\<not> list_all (\<lambda>(key, column).
             criterion_ok (criteria blank_set_filters key)
               (text_column column (texas_call\<lparr>state := Some ''NY''\<rparr>)))
           FILTER_COLUMN_MAP"
    by code_simp
  from criteria_conjunctive_membership [OF q, of ?ed texas_call "''model''" "[None, Some []]"]
    criteria_conjunctive_membership [OF q, of ?ed "texas_call\<lparr>state := Some ''NY''\<rparr>"
      "''model''" "[None, Some []]"] q m n yes no
  show ?thesis by simp
qed

subsection \<open>Distribution by a field\<close>

lemma first_seen_snoc:
  "first_seen (xs @ [x]) = (if x \<in> set xs then first_seen xs else first_seen xs @ [x])"
  by (simp add: first_seen_def)

lemma set_first_seen [simp]: "set (first_seen xs) = set xs"
  by (simp add: first_seen_def)

lemma distinct_first_seen [simp]: "distinct (first_seen xs)"
  by (simp add: first_seen_def)

lemma bump_counted:
  "distinct us \<Longrightarrow>
     bump x (map (\<lambda>v. (v, f v)) us)
       = (if x \<in> set us then map (\<lambda>v. (v, if v = x then Suc (f v) else f v)) us
          else map (\<lambda>v. (v, f v)) us @ [(x, 1)])"
  by (induction us) auto

lemma value_count_snoc: "value_count (xs @ [x]) = bump x (value_count xs)"
  by (simp add: value_count_def)

lemma value_count_eq:
  "value_count xs = map (\<lambda>v. (v, count_list xs v)) (first_seen xs)"
proof (induction xs rule: rev_induct)
  case Nil
  then show ?case by (simp add: value_count_def first_seen_def)
next
  case (snoc x xs)
  show ?case
  proof (cases "x \<in> set xs")
    case True
    then show ?thesis
      by (simp add: value_count_snoc snoc.IH bump_counted first_seen_snoc)
  next
    case False
    then show ?thesis
      by (auto simp: value_count_snoc snoc.IH bump_counted first_seen_snoc count_list_0_iff)
  qed
qed

lemma value_count_labels:
  "distinct (map fst (value_count xs))" "fst ` set (value_count xs) = set xs"
  by (simp_all add: value_count_eq comp_def image_image)

lemma value_count_counts:
  "kc \<in> set (value_count xs) \<Longrightarrow> snd kc = count_list xs (fst kc)"
  by (auto simp: value_count_eq)

lemma rearranged_labels:
  assumes "set ys = set xs" and "length ys = length xs" and "distinct (map fst xs)"
  shows "distinct (map fst ys)"
proof -
  have "card (set (map fst ys)) = card (set (map fst xs))"
    using assms(1) by simp
  also have "\<dots> = length (map fst xs)"
    using assms(3) by (rule distinct_card)
  also have "\<dots> = length (map fst ys)"
    using assms(2) by simp
  finally show ?thesis by (rule card_distinct)
qed

lemma value_counts_sorted:
  assumes "sorts_by_count sort_values"
  shows "sorted_wrt (\<lambda>a b. snd b \<le> snd a) (value_counts sort_values xs)"
    and "distinct (map fst (value_counts sort_values xs))"
    and "set (map fst (value_counts sort_values xs)) = set xs"
    and "kc \<in> set (value_counts sort_values xs) \<Longrightarrow> snd kc = count_list xs (fst kc)"
proof -
  let ?kcs = "value_count xs"
  have s: "set (sort_values ?kcs) = set ?kcs" "length (sort_values ?kcs) = length ?kcs"
    "sorted_wrt (\<lambda>a b. snd b \<le> snd a) (sort_values ?kcs)"
    using assms by (simp_all add: sorts_by_count_def)
  show "sorted_wrt (\<lambda>a b. snd b \<le> snd a) (value_counts sort_values xs)"
    using s(3) by (simp add: value_counts_def)
  show "distinct (map fst (value_counts sort_values xs))"
    unfolding value_counts_def
    using s(1,2) value_count_labels(1) by (rule rearranged_labels)
  show "set (map fst (value_counts sort_values xs)) = set xs"
    using s(1) value_count_labels(2) [of xs] by (simp add: value_counts_def)
  show "kc \<in> set (value_counts sort_values xs) \<Longrightarrow> snd kc = count_list xs (fst kc)"
    using s(1) by (simp add: value_counts_def value_count_counts)
qed

lemma two_orders:
  assumes "set zs = {a, b}" and "length zs = 2" and "a \<noteq> b"
  shows "zs = [a, b] \<or> zs = [b, a]"
proof -
  from assms(2) obtain u v where zs: "zs = [u, v]"
    by (cases zs; cases "tl zs") auto
  with assms(1,3) show ?thesis
    by (auto simp: doubleton_eq_iff)
qed

text \<open>
  A sort that reads the counts alone cannot give two values of equal count in ascending
  order both when the one and when the other occurs first.
\<close>

lemma value_counts_ties:
  assumes "sorts_by_count sort_values" and "reads_counts_only sort_values" and "x < y"
  shows "\<not> (claimed_order (value_counts sort_values [x, y])
            \<and> claimed_order (value_counts sort_values [y, x]))"
proof -
  let ?swap = "\<lambda>v. if v = x then y else if v = y then x else v"
  have ne: "x \<noteq> y" "y \<noteq> x" "\<not> y \<le> x"
    using assms(3) by (simp_all add: not_le)
  have xy: "value_count [x, y] = [(x, 1), (y, 1)]"
    and yx: "value_count [y, x] = [(y, 1), (x, 1)]"
    using ne(1,2) by (simp_all add: value_count_def)
  have r: "sort_values [(y, 1), (x, 1)]
      = map (\<lambda>kc. (?swap (fst kc), snd kc)) (sort_values [(x, 1), (y, 1)])"
    using assms(2) [unfolded reads_counts_only_def, rule_format, of ?swap "[(x, 1), (y, 1)]"]
      ne(1,2)
    by simp
  have "set (sort_values [(x, 1), (y, 1)]) = {(x, 1), (y, 1)}"
    and "length (sort_values [(x, 1), (y, 1)]) = 2"
    using assms(1) by (simp_all add: sorts_by_count_def)
  then have "sort_values [(x, 1), (y, 1)] = [(x, 1), (y, 1)]
      \<or> sort_values [(x, 1), (y, 1)] = [(y, 1), (x, 1)]"
    using ne(1) by (intro two_orders) simp_all
  then show ?thesis
  proof
    assume "sort_values [(x, 1), (y, 1)] = [(x, 1), (y, 1)]"
    with r have "value_counts sort_values [y, x] = [(y, 1), (x, 1)]"
      using ne(1,2) by (simp add: value_counts_def yx)
    then show ?thesis
      using ne by (simp add: claimed_order_def)
  next
    assume "sort_values [(x, 1), (y, 1)] = [(y, 1), (x, 1)]"
    then have "value_counts sort_values [x, y] = [(y, 1), (x, 1)]"
      by (simp add: value_counts_def xy)
    then show ?thesis
      using ne by (simp add: claimed_order_def)
  qed
qed

lemma prepare_distribution_full:
  "in_df column df \<Longrightarrow>
     prepare_distribution sort_values df column None
       = value_counts sort_values (distribution_values df column)"
  by (simp add: prepare_distribution_def distribution_values_def)

lemma insort_key_relabel:
  "insort_key f (g x) (map g xs) = map g (insort_key (\<lambda>y. f (g y)) x xs)"
  by (induction xs) simp_all

lemma sort_key_relabel: "sort_key f (map g xs) = map g (sort_key (\<lambda>y. f (g y)) xs)"
  by (induction xs) (simp_all add: insort_key_relabel)

lemma stable_sort_values_ok:
  "sorts_by_count stable_sort_values" "reads_counts_only stable_sort_values"
proof -
  have "sorted_wrt (\<lambda>a b. snd b \<le> snd a) (stable_sort_values kcs)" for kcs
  proof -
    have "sorted (map (\<lambda>kc. - int (snd kc)) (stable_sort_values kcs))"
      by (simp add: stable_sort_values_def)
    then show ?thesis by (simp add: sorted_map)
  qed
  then show "sorts_by_count stable_sort_values"
    by (simp add: sorts_by_count_def) (simp add: stable_sort_values_def)
  show "reads_counts_only stable_sort_values"
    by (simp add: reads_counts_only_def stable_sort_values_def sort_key_relabel)
qed

text \<open>
  C7, as the code has it. For a column of the frame, the distribution has one group for
  each distinct trimmed, non-blank, non-absent value, with the number of its occurrences,
  in descending order of count. A limit other than 0 truncates the distribution with
  \<open>head\<close>, a positive one to its first \<open>n\<close> groups. Groups of equal count are not put in
  the order of their values: the program leaves their order to the sort of the library,
  which reads the counts alone, and such a sort cannot give two values of equal count in
  ascending order both when the one and when the other occurs first.
\<close>

theorem distribution_rule:
  fixes sort_values :: "counts \<Rightarrow> counts" and df :: DataFrame and column :: string
    and n :: int and x y :: string
  defines "vals \<equiv> distribution_values df column"
    and "full \<equiv> prepare_distribution sort_values df column None"
  assumes "sorts_by_count sort_values" and "in_df column df"
  shows "sorted_wrt (\<lambda>a b. snd b \<le> snd a) full
       \<and> distinct (map fst full) \<and> set (map fst full) = set vals
       \<and> (\<forall>kc \<in> set full. snd kc = count_list vals (fst kc))
       \<and> prepare_distribution sort_values df column (Some n)
           = (if n = 0 then full else head n full)
       \<and> (0 < n \<longrightarrow> head n full = take (nat n) full)
       \<and> (reads_counts_only sort_values \<and> x < y
            \<longrightarrow> \<not> (claimed_order (value_counts sort_values [x, y])
                     \<and> claimed_order (value_counts sort_values [y, x])))"
proof -
  have f: "full = value_counts sort_values vals"
    unfolding full_def vals_def using assms(4) by (rule prepare_distribution_full)
  have "prepare_distribution sort_values df column (Some n)
      = (if n = 0 then full else head n full)"
    unfolding full_def using assms(4) by (simp add: prepare_distribution_def)
  moreover have "0 < n \<longrightarrow> head n full = take (nat n) full"
    by (simp add: head_def)
  moreover have "reads_counts_only sort_values \<and> x < y
      \<longrightarrow> \<not> (claimed_order (value_counts sort_values [x, y])
               \<and> claimed_order (value_counts sort_values [y, x]))"
    using value_counts_ties [OF assms(3)] by blast
  ultimately show ?thesis
    unfolding f
    using value_counts_sorted [OF assms(3), where xs = vals]
    by blast
qed

text \<open>
  The example of the specification: the values TX, TX, CA, a blank and an absent one give
  TX with 2 and CA with 1. A column that is not one of the text fields, \<open>zone\<close>, is counted
  in the same way.
\<close>

theorem distribution_rule_witness:
  "in_df ''state'' (frame spec_example_states)
   \<and> distribution_values (frame spec_example_states) ''state'' = [''TX'', ''TX'', ''CA'']
   \<and> prepare_distribution stable_sort_values (frame spec_example_states) ''state'' None
       = [(''TX'', 2), (''CA'', 1)]
   \<and> prepare_distribution stable_sort_values (frame spec_example_states) ''state'' (Some 1)
       = [(''TX'', 2)]
   \<and> sorted_wrt (\<lambda>a b. snd b \<le> snd a)
        (prepare_distribution stable_sort_values (frame spec_example_states) ''state'' None)
   \<and> prepare_distribution stable_sort_values (frame zone_calls) ''zone'' None
       = [(''North'', 2), (''South'', 1)]
   \<and> ''A'' < ''B''
   \<and> \<not> (claimed_order (value_counts stable_sort_values [''A'', ''B''])
         \<and> claimed_order (value_counts stable_sort_values [''B'', ''A'']))"
proof -
  have c: "in_df ''state'' (frame spec_example_states)"
    by code_simp
  have v: "distribution_values (frame spec_example_states) ''state'' = [''TX'', ''TX'', ''CA'']"
    by code_simp
  have d: "prepare_distribution stable_sort_values (frame spec_example_states) ''state'' None
      = [(''TX'', 2), (''CA'', 1)]"
    by code_simp
  have z: "prepare_distribution stable_sort_values (frame zone_calls) ''zone'' None
      = [(''North'', 2), (''South'', 1)]"
    by code_simp
  have h: "head 1 [(''TX'', 2::nat), (''CA'', 1)] = [(''TX'', 2)]"
    by (simp add: head_def)
  have l: "''A'' < ''B''"
    by code_simp
  from distribution_rule
    [OF stable_sort_values_ok(1) c, where n = 1 and x = "''A''" and y = "''B''"]
    stable_sort_values_ok(2) c v d z h l
  show ?thesis
    by simp
qed

text \<open>
  Two values that occur once each, B and A. With a sort that leaves equal counts in
  place the column B, A comes out as B, A, and with a sort that reverses equal counts the
  column A, B comes out as B, A: neither is the order the specification states.
\<close>

theorem distribution_ties_counterexample:
  "prepare_distribution stable_sort_values (frame tied_states) ''state'' None
     = [(''B'', 1), (''A'', 1)]
   \<and> \<not> claimed_order (prepare_distribution stable_sort_values (frame tied_states) ''state'' None)
   \<and> prepare_distribution reversing_sort_values (frame (rev tied_states)) ''state'' None
       = [(''B'', 1), (''A'', 1)]
   \<and> \<not> claimed_order
         (prepare_distribution reversing_sort_values (frame (rev tied_states)) ''state'' None)"
  by code_simp

text \<open>
  C10. \<open>prepare_distribution\<close> with \<open>limit = 0\<close> returns the full, untruncated distribution:
  the zero limit is treated as an absent limit, it is neither an error nor an empty result.
\<close>

theorem prepare_distribution_limit_zero:
  "prepare_distribution sort_values df column (Some 0)
     = prepare_distribution sort_values df column None"
  by (simp add: prepare_distribution_def)

text \<open>On the example column of the specification, the limit 0 leaves both groups.\<close>

theorem prepare_distribution_limit_zero_witness:
  "prepare_distribution stable_sort_values (frame spec_example_states) ''state'' (Some 0)
     = [(''TX'', 2), (''CA'', 1)]"
proof -
  have "prepare_distribution stable_sort_values (frame spec_example_states) ''state'' None
      = [(''TX'', 2), (''CA'', 1)]"
    by code_simp
  with prepare_distribution_limit_zero
    [of stable_sort_values "frame spec_example_states" "''state''"]
  show ?thesis by simp
qed

subsection \<open>Repeated issues\<close>

text \<open>An earlier occurrence within the window gives an immediately preceding one within it.\<close>

lemma precedes_trans: "precedes xs j k \<Longrightarrow> precedes xs k i \<Longrightarrow> precedes xs j i"
  by (auto simp: precedes_def)

lemma precedes_irrefl: "\<not> precedes xs i i"
  by (simp add: precedes_def)

lemma precedes_entry: "precedes xs j i \<Longrightarrow> entry (xs ! j) \<le> entry (xs ! i)"
  by (auto simp: precedes_def)

lemma immediate_predecessor_within:
  assumes "j < length xs" and "precedes xs j i"
    and "entry (xs ! i) - entry (xs ! j) \<le> d"
  shows "\<exists>m < length xs. immediately_precedes xs m i \<and> entry (xs ! i) - entry (xs ! m) \<le> d"
  using assms
proof (induction "card {k. k < length xs \<and> precedes xs j k \<and> precedes xs k i}"
    arbitrary: j rule: less_induct)
  case less
  let ?B = "\<lambda>j. {k. k < length xs \<and> precedes xs j k \<and> precedes xs k i}"
  show ?case
  proof (cases "?B j = {}")
    case True
    then have "immediately_precedes xs j i"
      using less.prems(2) by (auto simp: immediately_precedes_def list_ex_iff)
    with less.prems show ?thesis by blast
  next
    case False
    then obtain k where k: "k < length xs" "precedes xs j k" "precedes xs k i"
      by blast
    have fin: "finite (?B j)" by simp
    have "?B k \<subseteq> ?B j"
      using k(2) by (auto intro: precedes_trans)
    moreover have "k \<in> ?B j" "k \<notin> ?B k"
      using k by (auto simp: precedes_irrefl)
    ultimately have "?B k \<subset> ?B j" by blast
    then have c: "card (?B k) < card (?B j)"
      using fin by (rule psubset_card_mono [rotated])
    have "entry (xs ! i) - entry (xs ! k) \<le> d"
      using precedes_entry [OF k(2)] less.prems(3) by simp
    from less.hyps [OF c k(1) k(3) this] show ?thesis .
  qed
qed

lemma is_repeat_iff:
  "is_repeat xs i
     = (\<exists>j < length xs. precedes xs j i \<and> entry (xs ! i) - entry (xs ! j) \<le> thirty_days)"
proof
  assume "is_repeat xs i"
  then show "\<exists>j < length xs. precedes xs j i \<and> entry (xs ! i) - entry (xs ! j) \<le> thirty_days"
    by (auto simp: is_repeat_def immediately_precedes_def list_ex_iff)
next
  assume "\<exists>j < length xs. precedes xs j i \<and> entry (xs ! i) - entry (xs ! j) \<le> thirty_days"
  then obtain j where "j < length xs" "precedes xs j i"
    "entry (xs ! i) - entry (xs ! j) \<le> thirty_days"
    by blast
  from immediate_predecessor_within [OF this]
  show "is_repeat xs i"
    by (auto simp: is_repeat_def list_ex_iff)
qed

text \<open>The stable sort of the rows, seen on their positions.\<close>

lemma insort_key_map:
  "insort_key f (g x) (map g ys) = map g (insort_key (\<lambda>y. f (g y)) x ys)"
  by (induction ys) simp_all

lemma sort_key_map: "sort_key f (map g xs) = map g (sort_key (\<lambda>y. f (g y)) xs)"
  by (induction xs) (simp_all add: insort_key_map)

lemma insort_key_position_order:
  assumes "sorted_wrt (position_order k) ys" and "\<forall>y \<in> set ys. x < y"
  shows "sorted_wrt (position_order k) (insort_key k x ys)"
  using assms
proof (induction ys)
  case Nil
  then show ?case by simp
next
  case (Cons y ys)
  show ?case
  proof (cases "k x \<le> k y")
    case True
    have "\<forall>z \<in> set (y # ys). position_order k x z"
    proof
      fix z assume z: "z \<in> set (y # ys)"
      then have "k y \<le> k z"
        using Cons.prems(1) by (auto simp: position_order_def)
      with True z Cons.prems(2) show "position_order k x z"
        by (auto simp: position_order_def)
    qed
    with True Cons.prems(1) show ?thesis by simp
  next
    case False
    then have "position_order k y x"
      by (auto simp: position_order_def)
    with False Cons show ?thesis
      by (auto simp: set_insort_key)
  qed
qed

lemma sort_key_position_order:
  "sorted_wrt (<) xs \<Longrightarrow> sorted_wrt (position_order k) (sort_key k xs)"
proof (induction xs)
  case Nil
  then show ?case by simp
next
  case (Cons x xs)
  then show ?case
    by (simp add: insort_key_position_order)
qed

lemma days_le_thirty: "(days n \<le> 30) = (n \<le> thirty_days)"
proof -
  have "(days n \<le> 30) = (rat_of_int n \<le> rat_of_int thirty_days)"
    by (simp add: days_def thirty_days_def field_simps)
  then show ?thesis by (simp only: of_int_le_iff)
qed

lemma same_group_sorted:
  assumes "position_order (\<lambda>i. sort_cols (xs ! i)) j i"
    and "group_cols (xs ! j) = group_cols (xs ! i)"
  shows "entry (xs ! j) \<le> entry (xs ! i)"
    and "entry (xs ! j) = entry (xs ! i) \<Longrightarrow> j < i"
  using assms
  by (auto simp: position_order_def sort_cols_def group_cols_def entry_def less_eq_prod_def)

lemma mask_sum_Cons: "mask_sum (b # bs) = (if b then 1 else 0) + mask_sum bs"
  by (simp add: mask_sum_def)

text \<open>
  Over the sorted rows, the difference to the previous row of the group is within 30
  days exactly when some earlier row of the group is.
\<close>

lemma group_diff_counts:
  assumes "sorted_wrt (position_order (\<lambda>i. sort_cols (xs ! i))) (pre @ is)"
    and "last_seen xs prev pre"
  shows "mask_sum (diff_flags (group_diff prev (map ((!) xs) is))) = count_repeats xs pre is"
  using assms
proof (induction "is" arbitrary: prev pre)
  case Nil
  then show ?case by (simp add: diff_flags_def mask_sum_def)
next
  case (Cons i "is")
  let ?g = "group_cols (xs ! i)"
  let ?prev' = "prev(?g \<mapsto> the (call_entry_datetime (xs ! i)))"
  have before: "\<forall>j \<in> set pre. position_order (\<lambda>i. sort_cols (xs ! i)) j i"
    using Cons.prems(1) by (auto simp: sorted_wrt_append)
  have inv: "last_seen xs ?prev' (pre @ [i])"
    unfolding last_seen_def
  proof
    fix g
    show "case ?prev' g of
            None \<Rightarrow> \<forall>j \<in> set (pre @ [i]). group_cols (xs ! j) \<noteq> g
          | Some p \<Rightarrow> (\<exists>j \<in> set (pre @ [i]). group_cols (xs ! j) = g \<and> entry (xs ! j) = p)
                      \<and> (\<forall>j \<in> set (pre @ [i]). group_cols (xs ! j) = g \<longrightarrow> entry (xs ! j) \<le> p)"
    proof (cases "g = ?g")
      case True
      then show ?thesis
        using before same_group_sorted(1) [of xs _ i] by (auto simp: entry_def)
    next
      case False
      then show ?thesis
        using Cons.prems(2) [unfolded last_seen_def, rule_format, of g]
        by (auto split: option.splits)
    qed
  qed
  have sorted': "sorted_wrt (position_order (\<lambda>i. sort_cols (xs ! i))) ((pre @ [i]) @ is)"
    using Cons.prems(1) by simp
  have rest: "mask_sum (diff_flags (group_diff ?prev' (map ((!) xs) is)))
      = count_repeats xs (pre @ [i]) is"
    by (rule Cons.IH [OF sorted' inv])
  have flag: "(case map_option days (case prev ?g of None \<Rightarrow> None
                  | Some p \<Rightarrow> Some (the (call_entry_datetime (xs ! i)) - p)) of
               None \<Rightarrow> False | Some x \<Rightarrow> x \<le> 30) = earlier_within xs pre i"
  proof (cases "prev ?g")
    case None
    then have "\<forall>j \<in> set pre. group_cols (xs ! j) \<noteq> ?g"
      using Cons.prems(2) [unfolded last_seen_def, rule_format, of ?g] by simp
    with None show ?thesis
      by (auto simp: earlier_within_def list_ex_iff)
  next
    case (Some p)
    then have p: "\<exists>j \<in> set pre. group_cols (xs ! j) = ?g \<and> entry (xs ! j) = p"
      "\<forall>j \<in> set pre. group_cols (xs ! j) = ?g \<longrightarrow> entry (xs ! j) \<le> p"
      using Cons.prems(2) [unfolded last_seen_def, rule_format, of ?g] by simp_all
    have "(entry (xs ! i) - p \<le> thirty_days) = earlier_within xs pre i"
      unfolding earlier_within_def list_ex_iff using p by fastforce
    with Some show ?thesis
      by (simp add: days_le_thirty entry_def)
  qed
  show ?case
    using rest flag by (simp add: diff_flags_def mask_sum_Cons)
qed

lemma earlier_within_is_repeat:
  assumes "sorted_wrt (position_order (\<lambda>i. sort_cols (xs ! i))) (pre @ i # is)"
    and "set (pre @ i # is) = {0..<length xs}"
  shows "earlier_within xs pre i = is_repeat xs i"
proof -
  let ?Q = "position_order (\<lambda>i. sort_cols (xs ! i))"
  have before: "\<forall>j \<in> set pre. ?Q j i" and after: "\<forall>j \<in> set is. ?Q i j"
    using assms(1) by (auto simp: sorted_wrt_append)
  have pre: "precedes xs j i = (group_cols (xs ! j) = group_cols (xs ! i))" if "j \<in> set pre" for j
    using same_group_sorted [of xs j i] before that
    by (auto simp: precedes_def)
  have post: "\<not> precedes xs j i" if "j \<in> set is" for j
    using same_group_sorted [of xs i j] after that
    by (auto simp: precedes_def)
  have "is_repeat xs i
      = (\<exists>j \<in> set (pre @ i # is). precedes xs j i
            \<and> entry (xs ! i) - entry (xs ! j) \<le> thirty_days)"
    unfolding is_repeat_iff assms(2) by auto
  also have "\<dots> = (\<exists>j \<in> set pre. precedes xs j i
            \<and> entry (xs ! i) - entry (xs ! j) \<le> thirty_days)"
    using post precedes_irrefl [of xs i] by auto
  also have "\<dots> = earlier_within xs pre i"
    using pre by (auto simp: earlier_within_def list_ex_iff)
  finally show ?thesis by simp
qed

lemma count_repeats_filter:
  assumes "sorted_wrt (position_order (\<lambda>i. sort_cols (xs ! i))) (pre @ is)"
    and "set (pre @ is) = {0..<length xs}"
  shows "count_repeats xs pre is = length (filter (is_repeat xs) is)"
  using assms
proof (induction "is" arbitrary: pre)
  case Nil
  then show ?case by simp
next
  case (Cons i "is")
  have "count_repeats xs (pre @ [i]) is = length (filter (is_repeat xs) is)"
    using Cons.prems by (intro Cons.IH) simp_all
  then show ?case
    using earlier_within_is_repeat [OF Cons.prems] by simp
qed

lemma filter_length_permuted:
  assumes "distinct is" and "set is = {0..<n}"
  shows "length (filter P is) = length (filter P [0..<n])"
  using assms by (simp add: distinct_length_filter)

lemma repeated_issue_count_spec:
  assumes "in_df ''customer_name'' df" and "in_df ''customer_complaint'' df"
    and "in_df ''call_entry_datetime'' df"
  shows "repeated_issue_count df = Inr (repeated_by_spec df)"
proof -
  let ?xs = "repeat_candidates df"
  let ?k = "\<lambda>i. sort_cols (?xs ! i)"
  let ?is = "sort_key ?k [0..<length ?xs]"
  have sorted_rows: "sort_key sort_cols ?xs = map ((!) ?xs) ?is"
    using sort_key_map [of sort_cols "(!) ?xs" "[0..<length ?xs]"] by (simp add: map_nth)
  have ordered: "sorted_wrt (position_order ?k) ([] @ ?is)"
    by (simp add: sort_key_position_order)
  have all: "set ([] @ ?is) = {0..<length ?xs}"
    by simp
  have empty: "last_seen ?xs Map.empty []"
    by (simp add: last_seen_def)
  have "mask_sum (diff_flags (group_diff Map.empty (sort_key sort_cols ?xs)))
      = count_repeats ?xs [] ?is"
    unfolding sorted_rows by (rule group_diff_counts [OF ordered empty])
  also have "\<dots> = length (filter (is_repeat ?xs) ?is)"
    by (rule count_repeats_filter [OF ordered all])
  also have "\<dots> = repeated_by_spec df"
    unfolding repeated_by_spec_def by (rule filter_length_permuted) simp_all
  finally have main: "mask_sum (diff_flags (group_diff Map.empty (sort_key sort_cols ?xs)))
      = repeated_by_spec df" .
  show ?thesis
  proof (cases "?xs = []")
    case True
    then show ?thesis
      using assms by (simp add: repeated_issue_count_def repeated_by_spec_def repeat_candidates_def)
  next
    case False
    then show ?thesis
      using assms main
      by (simp add: repeated_issue_count_def repeat_candidates_def diff_flags_def Let_def)
  qed
qed

text \<open>
  C4. \<open>repeated_issues\<close> is the number of records, among those with customer name,
  complaint and entry time, that are not the chronologically first of their
  (customer, complaint) pair and whose entry is at most 30 days, the 30 days included,
  after the occurrence of the pair that immediately precedes it; a record further than
  that from its immediate predecessor does not count. Records of equal timestamp are
  taken in the order of the input.
\<close>

theorem repeated_issues_rule:
  "(in_df ''customer_name'' df \<and> in_df ''customer_complaint'' df
      \<and> in_df ''call_entry_datetime'' df
    \<longrightarrow> repeated_issue_count df = Inr (repeated_by_spec df))
   \<and> (compute_kpis series_mean df = Inr k
        \<longrightarrow> KPIs.repeated_issues k = repeated_by_spec df)"
proof (intro conjI impI)
  assume "in_df ''customer_name'' df \<and> in_df ''customer_complaint'' df
      \<and> in_df ''call_entry_datetime'' df"
  then show "repeated_issue_count df = Inr (repeated_by_spec df)"
    by (simp add: repeated_issue_count_spec)
next
  assume k: "compute_kpis series_mean df = Inr k"
  show "KPIs.repeated_issues k = repeated_by_spec df"
  proof (cases "rows df = []")
    case True
    then show ?thesis
      using k by (auto simp: compute_kpis_def repeated_by_spec_def repeat_candidates_def)
  next
    case False
    then obtain c where c: "repeated_issue_count df = Inr c" and kc: "KPIs.repeated_issues k = c"
      using k by (auto simp: compute_kpis_def Let_def split: sum.splits)
    have "in_df ''customer_name'' df \<and> in_df ''customer_complaint'' df
        \<and> in_df ''call_entry_datetime'' df"
      using c by (auto simp: repeated_issue_count_def split: if_splits)
    then have "repeated_issue_count df = Inr (repeated_by_spec df)"
      by (simp add: repeated_issue_count_spec)
    with c kc show ?thesis by simp
  qed
qed

text \<open>
  The example of the specification: of the entries on day 0, 20 and 55 only the one on
  day 20 is a repeat.
\<close>

theorem repeated_issues_rule_witness:
  "in_df ''customer_name'' (frame leak_calls) \<and> in_df ''customer_complaint'' (frame leak_calls)
   \<and> in_df ''call_entry_datetime'' (frame leak_calls)
   \<and> compute_kpis sequential_mean (frame leak_calls)
       = Inr \<lparr>KPIs.total_calls = 3, closed_calls = 0, pending_calls = 0,
              avg_resolution_days = 0, sla_compliance = 0, repeated_issues = 1\<rparr>
   \<and> repeated_issue_count (frame leak_calls) = Inr 1
   \<and> repeated_by_spec (frame leak_calls) = 1
   \<and> \<not> is_repeat leak_calls 0 \<and> \<not> is_repeat leak_calls 1 \<and> is_repeat leak_calls 2"
proof -
  let ?k = "\<lparr>KPIs.total_calls = 3, closed_calls = 0, pending_calls = 0,
              avg_resolution_days = 0, sla_compliance = 0, repeated_issues = 1\<rparr>"
  have c: "in_df ''customer_name'' (frame leak_calls) \<and> in_df ''customer_complaint'' (frame leak_calls)
      \<and> in_df ''call_entry_datetime'' (frame leak_calls)"
    by code_simp
  have k: "compute_kpis sequential_mean (frame leak_calls) = Inr ?k"
    by code_simp
  have r: "\<not> is_repeat leak_calls 0 \<and> \<not> is_repeat leak_calls 1 \<and> is_repeat leak_calls 2"
    by code_simp
  from repeated_issues_rule
    [where df = "frame leak_calls" and series_mean = sequential_mean and k = ?k] c k r
  show ?thesis
    by simp
qed

end
